theory Spec2Isabelle
  imports Complex_Main "HOL-Library.List_Lexorder" "HOL-Library.Multiset"
begin

section \<open>Python values\<close>

text \<open>
  A Python \<open>str\<close> is a sequence of Unicode code points; \<open>sorted\<close> compares two of them
  code point by code point, a proper prefix first, which is the order that
  \<open>HOL-Library.List_Lexorder\<close> puts on lists. File contents are bytes, written as
  naturals below 256.
\<close>

type_synonym pystr = "nat list"
type_synonym bytes = "nat list"

definition ascii :: "string \<Rightarrow> pystr" where
  "ascii s = map of_char s"

text \<open>\<open>str(n)\<close> for a non-negative integer: its decimal digits.\<close>

fun str_nat :: "nat \<Rightarrow> pystr" where
  "str_nat n = (if n < 10 then [48 + n] else str_nat (n div 10) @ [48 + n mod 10])"

declare str_nat.simps [simp del]

text \<open>
  \<open>str.strip()\<close> removes leading and trailing characters for which \<open>str.isspace\<close> holds:
  the code points of CPython's whitespace table.
\<close>

definition isspace :: "nat \<Rightarrow> bool" where
  "isspace c \<longleftrightarrow>
     (9 \<le> c \<and> c \<le> 13) \<or> (28 \<le> c \<and> c \<le> 32) \<or> c = 133 \<or> c = 160 \<or> c = 5760 \<or>
     (8192 \<le> c \<and> c \<le> 8202) \<or> c = 8232 \<or> c = 8233 \<or> c = 8239 \<or> c = 8287 \<or> c = 12288"

definition strip :: "pystr \<Rightarrow> pystr" where
  "strip s = rev (dropWhile isspace (rev (dropWhile isspace s)))"

text \<open>\<open>sep.join(xs)\<close>.\<close>

fun join :: "pystr \<Rightarrow> pystr list \<Rightarrow> pystr" where
  "join sep [] = []"
| "join sep [x] = x"
| "join sep (x # y # ys) = x @ sep @ join sep (y # ys)"

text \<open>
  The value \<open>r.json()\<close> returns. \<open>JObj\<close> lists the items of the parsed \<open>dict\<close> in
  insertion order (its keys are distinct); \<open>JFloat\<close> stands for a finite double.
\<close>

datatype json =
    JNull
  | JBool bool
  | JInt int
  | JFloat real
  | JStr pystr
  | JArr "json list"
  | JObj "(pystr \<times> json) list"

datatype error =
    ConnectionError
  | Timeout
  | HTTPError nat
  | JSONDecodeError
  | KeyError
  | IndexError
  | TypeError
  | AttributeError
  | UnicodeEncodeError
  | FileNotFoundError
  | FileExistsError
  | IsADirectoryError

text \<open>Truth value of an object, as \<open>if item.get("title")\<close> tests it.\<close>

fun truthy :: "json \<Rightarrow> bool" where
  "truthy JNull = False"
| "truthy (JBool b) = b"
| "truthy (JInt i) = (i \<noteq> 0)"
| "truthy (JFloat x) = (x \<noteq> 0)"
| "truthy (JStr s) = (s \<noteq> [])"
| "truthy (JArr xs) = (xs \<noteq> [])"
| "truthy (JObj kvs) = (kvs \<noteq> [])"

text \<open>
  \<open>v[k]\<close> for a string key \<open>k\<close>: a \<open>dict\<close> looks the key up and raises \<open>KeyError\<close> when
  it is missing; a list or a string wants an integer index, and the other values are
  not subscriptable (\<open>TypeError\<close> in both cases).
\<close>

fun getitem :: "json \<Rightarrow> pystr \<Rightarrow> error + json" where
  "getitem (JObj kvs) k = (case map_of kvs k of None \<Rightarrow> Inl KeyError | Some x \<Rightarrow> Inr x)"
| "getitem _ k = Inl TypeError"

text \<open>
  \<open>v[0]\<close>: the first element of a list, the first character of a string (\<open>IndexError\<close>
  when empty); a \<open>dict\<close> parsed from JSON has string keys only, so the key \<open>0\<close> is
  missing.
\<close>

fun getitem0 :: "json \<Rightarrow> error + json" where
  "getitem0 (JArr []) = Inl IndexError"
| "getitem0 (JArr (x # xs)) = Inr x"
| "getitem0 (JStr []) = Inl IndexError"
| "getitem0 (JStr (c # cs)) = Inr (JStr [c])"
| "getitem0 (JObj kvs) = Inl KeyError"
| "getitem0 _ = Inl TypeError"

text \<open>
  The elements a \<open>for\<close> loop, a comprehension or \<open>list.extend\<close> draws from a value: the
  elements of a list, the characters of a string, the keys of a \<open>dict\<close>.
\<close>

fun iterate :: "json \<Rightarrow> error + json list" where
  "iterate (JArr xs) = Inr xs"
| "iterate (JStr s) = Inr (map (\<lambda>c. JStr [c]) s)"
| "iterate (JObj kvs) = Inr (map (\<lambda>kv. JStr (fst kv)) kvs)"
| "iterate _ = Inl TypeError"

text \<open>\<open>item.get(k)\<close>: only a \<open>dict\<close> has the method; a missing key gives \<open>None\<close>.\<close>

fun dict_get :: "json \<Rightarrow> pystr \<Rightarrow> error + json" where
  "dict_get (JObj kvs) k = Inr (case map_of kvs k of None \<Rightarrow> JNull | Some x \<Rightarrow> x)"
| "dict_get _ k = Inl AttributeError"

text \<open>\<open>v.strip()\<close>: only a string has the method.\<close>

fun str_strip :: "json \<Rightarrow> error + pystr" where
  "str_strip (JStr s) = Inr (strip s)"
| "str_strip _ = Inl AttributeError"

text \<open>\<open>d[k] = v\<close> on a \<open>dict\<close> kept as its list of items.\<close>

fun dict_set :: "(pystr \<times> json) list \<Rightarrow> pystr \<Rightarrow> json \<Rightarrow> (pystr \<times> json) list" where
  "dict_set [] k v = [(k, v)]"
| "dict_set ((k', v') # d) k v = (if k' = k then (k, v) # d else (k', v') # dict_set d k v)"

text \<open>Sequencing of steps that may raise: the first exception ends the computation.\<close>

definition and_then :: "error + 'a \<Rightarrow> ('a \<Rightarrow> error + 'b) \<Rightarrow> error + 'b" where
  "and_then r f = (case r of Inl e \<Rightarrow> Inl e | Inr x \<Rightarrow> f x)"

section \<open>The HTTP layer and the world a run acts on\<close>

text \<open>
  A request is what \<open>requests.post(url, data=data, timeout=30)\<close> sends: the form fields
  are the items of \<open>data\<close> in insertion order. The remote service is not part of the
  program; \<open>remote k q\<close> is what happens to request \<open>q\<close> when it is the \<open>k\<close>-th request
  (from 0) that has been sent: no connection, no reply in time, or a reply with a
  status code and a body (\<open>None\<close> when the body is not JSON).
\<close>

record request =
  url :: pystr
  data :: "(pystr \<times> json) list"
  timeout :: nat

datatype response = Response (status_code: nat) (body: "json option")

datatype outcome = NetworkFailure | TimedOut | Answer response

type_synonym remote = "nat \<Rightarrow> request \<Rightarrow> outcome"

text \<open>
  The file system. A path is the string handed to the operating system, and \<open>node\<close> is
  the object the system resolves it to (for a path that names nothing yet, the place where
  the object would be made): two paths name the same file or directory exactly when
  their nodes are the same, as \<open>out/maplist.txt\<close> and \<open>out/./maplist.txt\<close> do. The
  directories and the contents of the regular files are kept by node; \<open>dirs\<close> are the
  paths that name a directory and \<open>files f p\<close> is what the file named by \<open>p\<close> holds.
\<close>

record filesystem =
  node :: "pystr \<Rightarrow> pystr"
  dir_nodes :: "pystr set"
  file_nodes :: "pystr \<rightharpoonup> bytes"

definition dirs :: "filesystem \<Rightarrow> pystr set" where
  "dirs f = {p. node f p \<in> dir_nodes f}"

definition files :: "filesystem \<Rightarrow> pystr \<rightharpoonup> bytes" where
  "files f p = file_nodes f (node f p)"

record world =
  sent :: "request list"
  slept :: nat
  fs :: filesystem

text \<open>
  What the source takes from the interpreter and the platform: \<open>os.path.join\<close>,
  \<open>os.linesep\<close> (what a text-mode file writes for each \<open>\n\<close>), and \<open>str(v)\<close> for a value
  that is not a string (inside an f-string).
\<close>

record runtime =
  path_join :: "pystr \<Rightarrow> pystr \<Rightarrow> pystr"
  linesep :: pystr
  str_of :: "json \<Rightarrow> pystr"

definition requests_post :: "remote \<Rightarrow> request \<Rightarrow> world \<Rightarrow> (error + response) \<times> world" where
  "requests_post rm q w =
     (case rm (length (sent w)) q of
        NetworkFailure \<Rightarrow> Inl ConnectionError
      | TimedOut \<Rightarrow> Inl Timeout
      | Answer r \<Rightarrow> Inr r,
      w\<lparr>sent := sent w @ [q]\<rparr>)"

text \<open>\<open>Response.raise_for_status()\<close> raises \<open>HTTPError\<close> for a status from 400 to 599.\<close>

definition raise_for_status :: "response \<Rightarrow> error + unit" where
  "raise_for_status r =
     (if 400 \<le> status_code r \<and> status_code r < 600 then Inl (HTTPError (status_code r))
      else Inr ())"

definition response_json :: "response \<Rightarrow> error + json" where
  "response_json r = (case body r of None \<Rightarrow> Inl JSONDecodeError | Some j \<Rightarrow> Inr j)"

definition time_sleep :: "world \<Rightarrow> world" where
  "time_sleep w = w\<lparr>slept := Suc (slept w)\<rparr>"

section \<open>Steam API\<close>

definition STEAM_COLLECTION_API :: pystr where
  "STEAM_COLLECTION_API =
     ascii ''https://api.steampowered.com/ISteamRemoteStorage/GetCollectionDetails/v1/''"

definition STEAM_DETAILS_API :: pystr where
  "STEAM_DETAILS_API =
     ascii ''https://api.steampowered.com/ISteamRemoteStorage/GetPublishedFileDetails/v1/''"

definition BATCH_SIZE :: nat where
  "BATCH_SIZE = 50"

subsection \<open>get_collection_item_ids\<close>

definition collection_request :: "pystr \<Rightarrow> request" where
  "collection_request collection_id =
     \<lparr>url = STEAM_COLLECTION_API,
      data = [(ascii ''collectioncount'', JStr (ascii ''1'')),
              (ascii ''publishedfileids[0]'', JStr collection_id)],
      timeout = 30\<rparr>"

text \<open>\<open>[c["publishedfileid"] for c in cs]\<close>\<close>

fun child_ids :: "json list \<Rightarrow> error + json list" where
  "child_ids [] = Inr []"
| "child_ids (c # cs) =
     and_then (getitem c (ascii ''publishedfileid'')) (\<lambda>x.
     and_then (child_ids cs) (\<lambda>xs. Inr (x # xs)))"

text \<open>\<open>[... for c in j["response"]["collectiondetails"][0]["children"]]\<close>\<close>

definition item_ids :: "json \<Rightarrow> error + json list" where
  "item_ids j =
     and_then (getitem j (ascii ''response'')) (\<lambda>a.
     and_then (getitem a (ascii ''collectiondetails'')) (\<lambda>b.
     and_then (getitem0 b) (\<lambda>c.
     and_then (getitem c (ascii ''children'')) (\<lambda>d.
     and_then (iterate d) child_ids))))"

definition get_collection_item_ids ::
  "remote \<Rightarrow> pystr \<Rightarrow> world \<Rightarrow> (error + json list) \<times> world" where
  "get_collection_item_ids rm collection_id w =
     (case requests_post rm (collection_request collection_id) w of (r, w1) \<Rightarrow>
        (and_then r (\<lambda>r.
         and_then (raise_for_status r) (\<lambda>_.
         and_then (response_json r) item_ids)), w1))"

subsection \<open>get_published_file_details\<close>

text \<open>The key \<open>f"publishedfileids[{idx}]"\<close>.\<close>

definition field :: "nat \<Rightarrow> pystr" where
  "field idx = ascii ''publishedfileids['' @ str_nat idx @ ascii '']''"

text \<open>
  \<open>data = {"itemcount": str(len(batch))}\<close>, then \<open>data[f"publishedfileids[{idx}]"] = fid\<close>
  for \<open>idx, fid\<close> in \<open>enumerate(batch)\<close>.
\<close>

definition details_data :: "json list \<Rightarrow> (pystr \<times> json) list" where
  "details_data batch =
     foldl (\<lambda>d (idx, fid). dict_set d (field idx) fid)
       [(ascii ''itemcount'', JStr (str_nat (length batch)))]
       (zip [0..<length batch] batch)"

definition details_request :: "json list \<Rightarrow> request" where
  "details_request batch = \<lparr>url = STEAM_DETAILS_API, data = details_data batch, timeout = 30\<rparr>"

text \<open>
  One turn of the loop for one batch: the request, \<open>raise_for_status\<close>, the records that
  \<open>result.extend(r.json()["response"]["publishedfiledetails"])\<close> appends, and the pause,
  which only a turn that did not raise reaches.
\<close>

definition fetch_batch :: "remote \<Rightarrow> json list \<Rightarrow> world \<Rightarrow> (error + json list) \<times> world" where
  "fetch_batch rm batch w =
     (case requests_post rm (details_request batch) w of (r, w1) \<Rightarrow>
        (case and_then r (\<lambda>r.
              and_then (raise_for_status r) (\<lambda>_.
              and_then (response_json r) (\<lambda>j.
              and_then (getitem j (ascii ''response'')) (\<lambda>a.
              and_then (getitem a (ascii ''publishedfiledetails'')) iterate)))) of
           Inl e \<Rightarrow> (Inl e, w1)
         | Inr recs \<Rightarrow> (Inr recs, time_sleep w1)))"

text \<open>
  \<open>for i in range(0, len(ids), BATCH_SIZE)\<close> from the index \<open>i\<close> on, with the records
  collected so far; \<open>ids[i:i + BATCH_SIZE]\<close> is \<open>take BATCH_SIZE (drop i ids)\<close>.
\<close>

function batch_loop ::
  "remote \<Rightarrow> json list \<Rightarrow> nat \<Rightarrow> json list \<Rightarrow> world \<Rightarrow> (error + json list) \<times> world" where
  "batch_loop rm ids i result w =
     (if i < length ids then
        (case fetch_batch rm (take BATCH_SIZE (drop i ids)) w of
           (Inl e, w1) \<Rightarrow> (Inl e, w1)
         | (Inr recs, w1) \<Rightarrow> batch_loop rm ids (i + BATCH_SIZE) (result @ recs) w1)
      else (Inr result, w))"
  by pat_completeness auto
termination
  by (relation "measure (\<lambda>(rm, ids, i, result, w). length ids - i)")
     (auto simp: BATCH_SIZE_def)

declare batch_loop.simps [simp del]

definition get_published_file_details ::
  "remote \<Rightarrow> json list \<Rightarrow> world \<Rightarrow> (error + json list) \<times> world" where
  "get_published_file_details rm ids w = batch_loop rm ids 0 [] w"

section \<open>Files\<close>

text \<open>
  UTF-8, as \<open>open(path, "w", encoding="utf-8")\<close> encodes what is written: one to four
  bytes for a code point; a surrogate (U+D800 to U+DFFF) cannot be encoded and raises
  \<open>UnicodeEncodeError\<close>. (There is no code point from \<open>0x110000\<close> on.)
\<close>

definition utf8_char :: "nat \<Rightarrow> error + bytes" where
  "utf8_char c =
     (if c < 0x80 then Inr [c]
      else if c < 0x800 then Inr [0xC0 + c div 0x40, 0x80 + c mod 0x40]
      else if 0xD800 \<le> c \<and> c < 0xE000 then Inl UnicodeEncodeError
      else if c < 0x10000 then
        Inr [0xE0 + c div 0x1000, 0x80 + c div 0x40 mod 0x40, 0x80 + c mod 0x40]
      else if c < 0x110000 then
        Inr [0xF0 + c div 0x40000, 0x80 + c div 0x1000 mod 0x40,
             0x80 + c div 0x40 mod 0x40, 0x80 + c mod 0x40]
      else Inl UnicodeEncodeError)"

fun utf8 :: "pystr \<Rightarrow> error + bytes" where
  "utf8 [] = Inr []"
| "utf8 (c # cs) = and_then (utf8_char c) (\<lambda>b. and_then (utf8 cs) (\<lambda>bs. Inr (b @ bs)))"

text \<open>A file opened in text mode with the default \<open>newline\<close> writes \<open>os.linesep\<close> for \<open>\n\<close>.\<close>

definition translate_newlines :: "pystr \<Rightarrow> pystr \<Rightarrow> pystr" where
  "translate_newlines sep text = concat (map (\<lambda>c. if c = 10 then sep else [c]) text)"

text \<open>
  \<open>os.makedirs(name, exist_ok=True)\<close>: nothing to do when \<open>name\<close> is a directory already;
  the empty path and a path that is a regular file are refused. (The directories above
  \<open>name\<close> that it creates on the way are not recorded.)
\<close>

definition makedirs :: "pystr \<Rightarrow> filesystem \<Rightarrow> error + filesystem" where
  "makedirs name f =
     (if name = [] then Inl FileNotFoundError
      else if files f name \<noteq> None then Inl FileExistsError
      else Inr (f\<lparr>dir_nodes := insert (node f name) (dir_nodes f)\<rparr>))"

text \<open>
  \<open>open(path, "w")\<close> creates the file or truncates it to no bytes, and leaves the position
  at its start; a directory cannot be opened.
\<close>

definition open_w :: "pystr \<Rightarrow> filesystem \<Rightarrow> error + filesystem" where
  "open_w path f =
     (if path \<in> dirs f then Inl IsADirectoryError
      else Inr (f\<lparr>file_nodes := (file_nodes f)(node f path \<mapsto> [])\<rparr>))"

text \<open>
  \<open>f.write(text)\<close> on the file just opened, and its closing: the text is encoded as a
  whole before any byte reaches the file, and the bytes are written from the start of the
  file, where \<open>open\<close> left the position, over what the file holds there; what it holds
  beyond them stays.
\<close>

definition write_text :: "runtime \<Rightarrow> pystr \<Rightarrow> pystr \<Rightarrow> filesystem \<Rightarrow> error + filesystem" where
  "write_text rt path text f =
     and_then (utf8 (translate_newlines (linesep rt) text)) (\<lambda>b.
       Inr (f\<lparr>file_nodes := (file_nodes f)(node f path \<mapsto>
         b @ drop (length b) (case files f path of None \<Rightarrow> [] | Some held \<Rightarrow> held))\<rparr>))"

section \<open>generate_maplist\<close>

text \<open>The f-string \<open>f"{item['title'].strip()}:{item['publishedfileid']}"\<close>.\<close>

definition format_value :: "runtime \<Rightarrow> json \<Rightarrow> pystr" where
  "format_value rt v = (case v of JStr s \<Rightarrow> s | _ \<Rightarrow> str_of rt v)"

definition render :: "runtime \<Rightarrow> json \<Rightarrow> error + pystr" where
  "render rt item =
     and_then (getitem item (ascii ''title'')) (\<lambda>t.
     and_then (str_strip t) (\<lambda>s.
     and_then (getitem item (ascii ''publishedfileid'')) (\<lambda>i.
       Inr (s @ ascii '':'' @ format_value rt i))))"

text \<open>
  The generator \<open>(f"..." for item in items if item.get("title"))\<close>, drawn to its end by
  \<open>sorted\<close>: the first item that raises ends it.
\<close>

fun rendered :: "runtime \<Rightarrow> json list \<Rightarrow> error + pystr list" where
  "rendered rt [] = Inr []"
| "rendered rt (item # items) =
     and_then (dict_get item (ascii ''title'')) (\<lambda>t.
       if truthy t then
         and_then (render rt item) (\<lambda>l. and_then (rendered rt items) (\<lambda>ls. Inr (l # ls)))
       else rendered rt items)"

text \<open>
  \<open>sorted\<close> orders strings by code points. The order is linear and two strings that
  compare equal are the same string, so the sorted list is the one \<open>sort\<close> computes.
\<close>

definition manifest_lines :: "runtime \<Rightarrow> json list \<Rightarrow> error + pystr list" where
  "manifest_lines rt items = and_then (rendered rt items) (\<lambda>ls. Inr (sort ls))"

text \<open>
  The last four statements: \<open>os.makedirs\<close>, \<open>os.path.join\<close>, \<open>open\<close> with the \<open>write\<close>
  inside, and \<open>return path\<close>. An exception leaves the file system as the steps before it
  made it.
\<close>

definition write_manifest ::
  "runtime \<Rightarrow> pystr \<Rightarrow> pystr list \<Rightarrow> filesystem \<Rightarrow> (error + pystr) \<times> filesystem" where
  "write_manifest rt output_dir lines f =
     (case makedirs output_dir f of
        Inl e \<Rightarrow> (Inl e, f)
      | Inr f1 \<Rightarrow>
          (let path = path_join rt output_dir (ascii ''maplist.txt'') in
           case open_w path f1 of
             Inl e \<Rightarrow> (Inl e, f1)
           | Inr f2 \<Rightarrow>
               (case write_text rt path (join (ascii [CHR 0x0A]) lines) f2 of
                  Inl e \<Rightarrow> (Inl e, f2)
                | Inr f3 \<Rightarrow> (Inr path, f3))))"

definition generate_maplist ::
  "runtime \<Rightarrow> remote \<Rightarrow> pystr \<Rightarrow> pystr \<Rightarrow> world \<Rightarrow> (error + pystr) \<times> world" where
  "generate_maplist rt rm collection_id output_dir w =
     (case get_collection_item_ids rm collection_id w of
        (Inl e, w1) \<Rightarrow> (Inl e, w1)
      | (Inr ids, w1) \<Rightarrow>
          (case get_published_file_details rm ids w1 of
             (Inl e, w2) \<Rightarrow> (Inl e, w2)
           | (Inr items, w2) \<Rightarrow>
               (case manifest_lines rt items of
                  Inl e \<Rightarrow> (Inl e, w2)
                | Inr lines \<Rightarrow>
                    (case write_manifest rt output_dir lines (fs w2) of
                       (r, f) \<Rightarrow> (r, w2\<lparr>fs := f\<rparr>)))))"

text \<open>
  \<open>os.path\<close> on a POSIX system: \<open>posixpath.join(a, b)\<close> and \<open>posixpath.isabs\<close>, with
  \<open>os.linesep = "\n"\<close>.
\<close>

definition posix_join :: "pystr \<Rightarrow> pystr \<Rightarrow> pystr" where
  "posix_join a b =
     (if b \<noteq> [] \<and> hd b = 47 then b
      else if a = [] \<or> last a = 47 then a @ b
      else a @ [47] @ b)"

definition posix_isabs :: "pystr \<Rightarrow> bool" where
  "posix_isabs p \<longleftrightarrow> p \<noteq> [] \<and> hd p = 47"

definition posix :: "(json \<Rightarrow> pystr) \<Rightarrow> runtime" where
  "posix str = \<lparr>path_join = posix_join, linesep = [10], str_of = str\<rparr>"

text \<open>
  A file system for the examples: a path resolves to itself, but for \<open>out/.\<close> and
  \<open>out/./maplist.txt\<close>, which name what \<open>out\<close> and \<open>out/maplist.txt\<close> name.
\<close>

definition example_node :: "pystr \<Rightarrow> pystr" where
  "example_node p =
     (if p = ascii ''out/.'' then ascii ''out''
      else if p = ascii ''out/./maplist.txt'' then ascii ''out/maplist.txt''
      else p)"

definition example_fs :: "pystr set \<Rightarrow> (pystr \<rightharpoonup> bytes) \<Rightarrow> filesystem" where
  "example_fs ds fm = \<lparr>node = example_node, dir_nodes = ds, file_nodes = fm\<rparr>"

definition empty_world :: world where
  "empty_world = \<lparr>sent = [], slept = 0, fs = example_fs {} Map.empty\<rparr>"

section \<open>Notions the statements use\<close>


text \<open>
  A request fails in transport when no reply arrives, or when the reply has a status
  for which \<open>raise_for_status\<close> raises; the exceptions that report it are those of the
  \<open>requests\<close> library.
\<close>

definition transport_failure :: "outcome \<Rightarrow> bool" where
  "transport_failure out =
     (case out of
        NetworkFailure \<Rightarrow> True
      | TimedOut \<Rightarrow> True
      | Answer r \<Rightarrow> 400 \<le> status_code r \<and> status_code r < 600)"

definition is_transport_error :: "error \<Rightarrow> bool" where
  "is_transport_error e =
     (case e of ConnectionError \<Rightarrow> True | Timeout \<Rightarrow> True | HTTPError s \<Rightarrow> True | _ \<Rightarrow> False)"

text \<open>The exceptions Python's own subscripting raises.\<close>

definition is_indexing_fault :: "error \<Rightarrow> bool" where
  "is_indexing_fault e =
     (case e of KeyError \<Rightarrow> True | IndexError \<Rightarrow> True | TypeError \<Rightarrow> True | _ \<Rightarrow> False)"

text \<open>
  The elements of \<open>xs\<close> at the positions from \<open>k * 50\<close> up to, not including,
  \<open>min ((k + 1) * 50) (length xs)\<close>; the number of batches \<open>ceil(n / BATCH_SIZE)\<close>; the
  identifiers a details request carries, in the order of its fields.
\<close>

definition chunk :: "'a list \<Rightarrow> nat \<Rightarrow> 'a list" where
  "chunk xs k = map ((!) xs) [k * 50..<min ((k + 1) * 50) (length xs)]"

definition n_batches :: "nat \<Rightarrow> nat" where
  "n_batches n = nat \<lceil>real n / real BATCH_SIZE\<rceil>"


text \<open>
  A member record: a \<open>dict\<close> with a \<open>publishedfileid\<close> and with a \<open>title\<close> that is
  absent, \<open>null\<close> or a string. It has a title when the title is a non-empty string; its
  line is the trimmed title, a colon and the identifier.
\<close>

definition member_record :: "json \<Rightarrow> bool" where
  "member_record item =
     (case item of
        JObj kvs \<Rightarrow>
          map_of kvs (ascii ''publishedfileid'') \<noteq> None \<and>
          (case map_of kvs (ascii ''title'') of
             None \<Rightarrow> True | Some JNull \<Rightarrow> True | Some (JStr s) \<Rightarrow> True | Some _ \<Rightarrow> False)
      | _ \<Rightarrow> False)"

definition has_title :: "json \<Rightarrow> bool" where
  "has_title item =
     (case getitem item (ascii ''title'') of Inr (JStr s) \<Rightarrow> s \<noteq> [] | _ \<Rightarrow> False)"

definition line_of :: "runtime \<Rightarrow> json \<Rightarrow> pystr" where
  "line_of rt item =
     (case (getitem item (ascii ''title''), getitem item (ascii ''publishedfileid'')) of
        (Inr (JStr s), Inr i) \<Rightarrow> strip s @ ascii '':'' @ format_value rt i
      | _ \<Rightarrow> [])"

text \<open>
  The structure the resolver expects of a reply: an object whose \<open>response\<close> is an object
  whose \<open>collectiondetails\<close> is a non-empty array whose first element is an object with a
  key \<open>children\<close>; the value under that key. A child carries an identifier when it is an
  object with the key \<open>publishedfileid\<close>.
\<close>

fun children_of :: "json \<Rightarrow> json option" where
  "children_of (JObj outer) =
     (case map_of outer (ascii ''response'') of
        Some (JObj resp) \<Rightarrow>
          (case map_of resp (ascii ''collectiondetails'') of
             Some (JArr (JObj d # rest)) \<Rightarrow> map_of d (ascii ''children'')
           | _ \<Rightarrow> None)
      | _ \<Rightarrow> None)"
| "children_of _ = None"

fun id_of_child :: "json \<Rightarrow> json option" where
  "id_of_child (JObj kvs) = map_of kvs (ascii ''publishedfileid'')"
| "id_of_child _ = None"

definition has_id :: "json \<Rightarrow> bool" where
  "has_id c = (id_of_child c \<noteq> None)"

text \<open>The bytes of the manifest file for the given lines.\<close>

definition manifest_bytes :: "runtime \<Rightarrow> pystr list \<Rightarrow> error + bytes" where
  "manifest_bytes rt lines = utf8 (translate_newlines (linesep rt) (join [10] lines))"

text \<open>
  The records a details reply carries (the array under \<open>response.publishedfiledetails\<close>).
  Two outcomes of a request carry the same records when they are the same outcome, or
  replies with the same status whose record arrays hold the same records, each as often,
  in any order. Likewise for two results of the batcher.
\<close>

fun record_list :: "json \<Rightarrow> json list option" where
  "record_list (JObj outer) =
     (case map_of outer (ascii ''response'') of
        Some (JObj resp) \<Rightarrow>
          (case map_of resp (ascii ''publishedfiledetails'') of
             Some (JArr recs) \<Rightarrow> Some recs
           | _ \<Rightarrow> None)
      | _ \<Rightarrow> None)"
| "record_list _ = None"

definition same_records :: "outcome \<Rightarrow> outcome \<Rightarrow> bool" where
  "same_records a b =
     (a = b \<or>
      (case (a, b) of
         (Answer (Response s (Some j)), Answer (Response s' (Some j'))) \<Rightarrow>
           s = s' \<and>
           (case (record_list j, record_list j') of
              (Some xs, Some ys) \<Rightarrow> mset xs = mset ys
            | _ \<Rightarrow> False)
       | _ \<Rightarrow> False))"

definition same_up_to_order :: "error + json list \<Rightarrow> error + json list \<Rightarrow> bool" where
  "same_up_to_order a b =
     (case (a, b) of
        (Inl e, Inl e') \<Rightarrow> True
      | (Inr xs, Inr ys) \<Rightarrow> mset xs = mset ys
      | _ \<Rightarrow> False)"

section \<open>Example runs\<close>

text \<open>
  A POSIX runtime, and records as the details endpoint sends them: with a title to trim, a
  title of white space, an empty title, no title, a \<open>null\<close> title.
\<close>

definition rt0 :: runtime where
  "rt0 = posix (\<lambda>v. [])"

definition record_of :: "string \<Rightarrow> string \<Rightarrow> json" where
  "record_of t i =
     JObj [(ascii ''publishedfileid'', JStr (ascii i)), (ascii ''title'', JStr (ascii t))]"

definition example_records :: "json list" where
  "example_records =
     [record_of ''  Dust2  '' ''1'', record_of ''   '' ''2'', record_of [] ''3'',
      JObj [(ascii ''publishedfileid'', JStr (ascii ''4''))],
      JObj [(ascii ''publishedfileid'', JStr (ascii ''5'')), (ascii ''title'', JNull)],
      record_of ''Aztec'' ''6'']"




text \<open>
  A collection identifier, the bodies of the two endpoints, and remotes: one that gives the
  same reply to every request; one whose first reply (with a status to choose) lists two
  children and whose later replies carry the given records; one whose details endpoint is
  down; and a world where the output directory holds an older manifest and another file.
\<close>

definition cid0 :: pystr where
  "cid0 = ascii ''123''"

definition collection_body :: "json list \<Rightarrow> json" where
  "collection_body cs =
     JObj [(ascii ''response'',
       JObj [(ascii ''collectiondetails'', JArr [JObj [(ascii ''children'', JArr cs)]])])]"

definition details_body :: "json list \<Rightarrow> json" where
  "details_body recs =
     JObj [(ascii ''response'', JObj [(ascii ''publishedfiledetails'', JArr recs)])]"

definition child :: "string \<Rightarrow> json" where
  "child i = JObj [(ascii ''publishedfileid'', JStr (ascii i))]"

definition answer_with :: "nat \<Rightarrow> json \<Rightarrow> remote" where
  "answer_with st j k q = Answer (Response st (Some j))"

definition example_remote :: "nat \<Rightarrow> json list \<Rightarrow> remote" where
  "example_remote st recs k q =
     (if k = 0 then Answer (Response st (Some (collection_body [child ''1'', child ''6''])))
      else Answer (Response 200 (Some (details_body recs))))"

definition failing_remote :: remote where
  "failing_remote k q =
     (if k = 0 then Answer (Response 200 (Some (collection_body [child ''1'', child ''6''])))
      else Answer (Response 500 None))"

definition old_world :: world where
  "old_world =
     \<lparr>sent = [], slept = 0,
      fs = example_fs {ascii ''out''} [ascii ''out/maplist.txt'' \<mapsto> ascii ''Zebra:9 and more'',
                     ascii ''out/notes.txt'' \<mapsto> ascii ''keep'']\<rparr>"

definition two_records :: "json list" where
  "two_records = [record_of ''Dust2'' ''1'', record_of ''Aztec'' ''6'']"


definition two_children :: "json list" where
  "two_children = [child ''1'', JObj [(ascii ''title'', JStr (ascii ''Dust2''))]]"

text \<open>A remote that answers by endpoint, the same at every time.\<close>

definition steam_remote :: "json list \<Rightarrow> json list \<Rightarrow> remote" where
  "steam_remote cs recs k q =
     (if url q = STEAM_COLLECTION_API then Answer (Response 200 (Some (collection_body cs)))
      else Answer (Response 200 (Some (details_body recs))))"

section \<open>Basic facts\<close>

lemma and_then_Inl [simp]: "and_then (Inl e) f = Inl e"
  by (simp add: and_then_def)

lemma and_then_Inr [simp]: "and_then (Inr x) f = f x"
  by (simp add: and_then_def)

lemma and_then_eq_Inr: "and_then r f = Inr y \<longleftrightarrow> (\<exists>x. r = Inr x \<and> f x = Inr y)"
  by (cases r) simp_all

lemmas run_defs = generate_maplist_def get_collection_item_ids_def requests_post_def
  raise_for_status_def response_json_def item_ids_def get_published_file_details_def
  batch_loop.simps fetch_batch_def time_sleep_def manifest_lines_def render_def
  format_value_def strip_def isspace_def write_manifest_def makedirs_def open_w_def
  write_text_def translate_newlines_def utf8_char_def rt0_def posix_def posix_join_def
  BATCH_SIZE_def collection_body_def details_body_def child_def record_of_def
  empty_world_def cid0_def Let_def example_fs_def example_node_def files_def dirs_def

section \<open>The Collection Resolver\<close>

lemma requests_post_sent:
  "requests_post rm q w = (r, w1) \<Longrightarrow> sent w1 = sent w @ [q] \<and> fs w1 = fs w \<and> slept w1 = slept w"
  by (auto simp: requests_post_def)

lemma requests_post_failure:
  "requests_post rm q w = (r, w1) \<Longrightarrow> transport_failure (rm (length (sent w)) q) \<Longrightarrow>
   (\<exists>e. r = Inl e \<and> is_transport_error e) \<or>
   (\<exists>resp e. r = Inr resp \<and> raise_for_status resp = Inl e \<and> is_transport_error e)"
  by (auto simp: requests_post_def transport_failure_def is_transport_error_def
      raise_for_status_def split: outcome.splits)

lemma getitem_fault: "getitem v k = Inl e \<Longrightarrow> is_indexing_fault e"
  by (cases v) (auto simp: is_indexing_fault_def split: option.splits)

lemma getitem0_fault: "getitem0 v = Inl e \<Longrightarrow> is_indexing_fault e"
  by (cases v rule: getitem0.cases) (auto simp: is_indexing_fault_def)

lemma getitem_Inr_iff: "getitem v k = Inr x \<longleftrightarrow> (\<exists>kvs. v = JObj kvs \<and> map_of kvs k = Some x)"
  by (cases v) (auto split: option.splits)

lemma item_ids_children:
  "children_of j = Some d \<Longrightarrow> item_ids j = and_then (iterate d) child_ids"
  by (cases j) (auto simp: item_ids_def split: option.splits json.splits list.splits)

lemma item_ids_no_children:
  assumes "children_of j = None"
  shows "\<exists>e. item_ids j = Inl e \<and> is_indexing_fault e"
proof (cases "getitem j (ascii ''response'')")
  case (Inl e)
  then show ?thesis by (simp add: item_ids_def getitem_fault)
next
  case a: (Inr a)
  show ?thesis
  proof (cases "getitem a (ascii ''collectiondetails'')")
    case (Inl e)
    with a show ?thesis by (simp add: item_ids_def getitem_fault)
  next
    case b: (Inr b)
    show ?thesis
    proof (cases "getitem0 b")
      case (Inl e)
      with a b show ?thesis by (simp add: item_ids_def getitem0_fault)
    next
      case c: (Inr c)
      show ?thesis
      proof (cases "getitem c (ascii ''children'')")
        case (Inl e)
        with a b c show ?thesis by (simp add: item_ids_def getitem_fault)
      next
        case (Inr d)
        from a obtain outer where "j = JObj outer" "map_of outer (ascii ''response'') = Some a"
          by (auto simp: getitem_Inr_iff)
        moreover from b obtain resp where "a = JObj resp"
          "map_of resp (ascii ''collectiondetails'') = Some b"
          by (auto simp: getitem_Inr_iff)
        moreover from Inr obtain dd where "c = JObj dd" "map_of dd (ascii ''children'') = Some d"
          by (auto simp: getitem_Inr_iff)
        moreover from c \<open>c = JObj dd\<close> obtain rest where "b = JArr (JObj dd # rest)"
          by (cases b rule: getitem0.cases) auto
        ultimately have "children_of j = Some d" by simp
        with assms show ?thesis by simp
      qed
    qed
  qed
qed

lemma get_collection_item_ids_sent:
  "get_collection_item_ids rm cid w = (r, w1) \<Longrightarrow>
   sent w1 = sent w @ [collection_request cid] \<and> fs w1 = fs w"
  by (auto simp: get_collection_item_ids_def split: prod.splits dest: requests_post_sent)

lemma get_collection_item_ids_failure:
  assumes "get_collection_item_ids rm cid w = (r, w1)"
    and "transport_failure (rm (length (sent w)) (collection_request cid))"
  shows "\<exists>e. r = Inl e \<and> is_transport_error e"
proof -
  obtain r0 w0 where p: "requests_post rm (collection_request cid) w = (r0, w0)"
    by (cases "requests_post rm (collection_request cid) w")
  from requests_post_failure [OF p assms(2)] assms(1) p show ?thesis
    by (auto simp: get_collection_item_ids_def)
qed

lemma get_collection_item_ids_answer:
  "rm (length (sent w)) (collection_request cid) = Answer (Response st (Some j)) \<Longrightarrow>
   \<not> (400 \<le> st \<and> st < 600) \<Longrightarrow>
   fst (get_collection_item_ids rm cid w) = item_ids j"
  by (auto simp: get_collection_item_ids_def requests_post_def raise_for_status_def
      response_json_def)

text \<open>
  C5, as the code has it. When the reply parses as JSON and lacks the structure
  \<open>response.collectiondetails[0].children\<close>, \<open>get_collection_item_ids\<close> fails with the
  exception of the subscript that met the gap: Python's own \<open>KeyError\<close>, \<open>IndexError\<close> or
  \<open>TypeError\<close>. The source has no exception class of its own.
\<close>

theorem missing_structure_raises_indexing_fault:
  assumes "rm (length (sent w)) (collection_request cid) = Answer (Response st (Some j))"
    and "\<not> (400 \<le> st \<and> st < 600)"
    and "children_of j = None"
  shows "\<exists>e. fst (get_collection_item_ids rm cid w) = Inl e \<and> is_indexing_fault e"
proof -
  have "fst (get_collection_item_ids rm cid w) = item_ids j"
    using assms(1,2) by (rule get_collection_item_ids_answer)
  with item_ids_no_children [OF assms(3)] show ?thesis by simp
qed

theorem missing_structure_raises_indexing_fault_witness:
  "children_of (JObj []) = None \<and>
   (\<exists>e. fst (get_collection_item_ids (answer_with 200 (JObj [])) cid0 empty_world) = Inl e \<and>
      is_indexing_fault e)"
proof -
  have a: "answer_with 200 (JObj []) (length (sent empty_world)) (collection_request cid0) =
      Answer (Response 200 (Some (JObj [])))"
    by (simp add: answer_with_def)
  have b: "\<not> (400 \<le> (200::nat) \<and> (200::nat) < 600)" by simp
  have c: "children_of (JObj []) = None" by simp
  from missing_structure_raises_indexing_fault
    [of "answer_with 200 (JObj [])" empty_world cid0 200 "JObj []", OF a b c] c
  show ?thesis by simp
qed

theorem missing_structure_counterexample:
  "fst (get_collection_item_ids (answer_with 200 (JObj [])) cid0 empty_world) = Inl KeyError \<and>
   is_indexing_fault KeyError"
  by (simp add: run_defs answer_with_def is_indexing_fault_def ascii_def)

lemma child_ids_all:
  "list_all has_id cs \<Longrightarrow>
   child_ids cs = Inr (map (\<lambda>c. the (id_of_child c)) cs)"
proof (induction cs)
  case Nil
  show ?case by simp
next
  case (Cons c cs)
  then obtain x where "id_of_child c = Some x" by (auto simp: has_id_def)
  then have "getitem c (ascii ''publishedfileid'') = Inr x"
    by (cases c) simp_all
  with Cons \<open>id_of_child c = Some x\<close> show ?case by simp
qed

lemma child_ids_missing:
  "\<not> list_all has_id cs \<Longrightarrow>
   \<exists>e. child_ids cs = Inl e \<and> is_indexing_fault e"
proof (induction cs)
  case Nil
  then show ?case by simp
next
  case (Cons c cs)
  show ?case
  proof (cases "getitem c (ascii ''publishedfileid'')")
    case (Inl e)
    then show ?thesis by (simp add: getitem_fault)
  next
    case (Inr x)
    then have "has_id c"
      by (auto simp: getitem_Inr_iff has_id_def)
    with Cons.prems have "\<not> list_all has_id cs" by simp
    from Cons.IH [OF this] obtain e where "child_ids cs = Inl e" "is_indexing_fault e"
      by blast
    with Inr show ?thesis by simp
  qed
qed

text \<open>
  C9. With the structure in place and a list of children, \<open>get_collection_item_ids\<close>
  returns the identifiers of all children, in order, when every child is an object with
  the key \<open>publishedfileid\<close>; when some child has none it raises (\<open>KeyError\<close>, or
  \<open>TypeError\<close> for a child that is not an object): no child is skipped and no default
  stands in.
\<close>

theorem child_without_id_raises:
  assumes "rm (length (sent w)) (collection_request cid) = Answer (Response st (Some j))"
    and "\<not> (400 \<le> st \<and> st < 600)"
    and "children_of j = Some (JArr cs)"
  shows "(list_all has_id cs \<longrightarrow>
            fst (get_collection_item_ids rm cid w) = Inr (map (\<lambda>c. the (id_of_child c)) cs)) \<and>
         (\<not> list_all has_id cs \<longrightarrow>
            (\<exists>e. fst (get_collection_item_ids rm cid w) = Inl e \<and> is_indexing_fault e))"
proof -
  have "fst (get_collection_item_ids rm cid w) = item_ids j"
    using assms(1,2) by (rule get_collection_item_ids_answer)
  with item_ids_children [OF assms(3)]
  have "fst (get_collection_item_ids rm cid w) = child_ids cs" by simp
  then show ?thesis
    by (auto simp: child_ids_all dest: child_ids_missing)
qed

theorem child_without_id_raises_witness:
  "children_of (collection_body two_children) = Some (JArr two_children) \<and>
   \<not> list_all has_id two_children \<and>
   (\<exists>e. fst (get_collection_item_ids (answer_with 200 (collection_body two_children)) cid0
      empty_world) = Inl e \<and> is_indexing_fault e) \<and>
   list_all has_id [child ''1'', child ''6''] \<and>
   fst (get_collection_item_ids (answer_with 200 (collection_body [child ''1'', child ''6'']))
     cid0 empty_world) = Inr [JStr (ascii ''1''), JStr (ascii ''6'')]"
proof -
  have b: "\<not> (400 \<le> (200::nat) \<and> (200::nat) < 600)" by simp
  have a: "answer_with 200 j (length (sent empty_world)) (collection_request cid0) =
      Answer (Response 200 (Some j))" for j
    by (simp add: answer_with_def)
  have c1: "children_of (collection_body two_children) = Some (JArr two_children)"
    by (simp add: collection_body_def ascii_def)
  have c2: "children_of (collection_body [child ''1'', child ''6'']) =
      Some (JArr [child ''1'', child ''6''])"
    by (simp add: collection_body_def ascii_def)
  have n: "\<not> list_all has_id two_children"
    by (simp add: two_children_def has_id_def child_def ascii_def)
  have y: "list_all has_id [child ''1'', child ''6'']"
    by (simp add: has_id_def child_def ascii_def)
  from child_without_id_raises
      [of "answer_with 200 (collection_body two_children)" empty_world cid0 200
        "collection_body two_children" two_children, OF a b c1]
    child_without_id_raises
      [of "answer_with 200 (collection_body [child ''1'', child ''6''])" empty_world cid0 200
        "collection_body [child ''1'', child ''6'']" "[child ''1'', child ''6'']", OF a b c2]
    c1 n y
  show ?thesis
    by (simp add: child_def)
qed

section \<open>The Detail Batcher\<close>









lemma n_batches_div: "n_batches n = (n + 49) div 50"
proof -
  have "\<lceil>real n / real BATCH_SIZE\<rceil> = \<lceil>of_int (int n) / (of_int 50 :: real)\<rceil>"
    by (simp add: BATCH_SIZE_def)
  also have "\<dots> = - (- int n div 50)"
    by (rule ceiling_divide_eq_div)
  also have "\<dots> = int ((n + 49) div 50)"
    by (simp add: zdiv_int)
  finally show ?thesis by (simp add: n_batches_def)
qed

lemma take_drop_chunk: "take BATCH_SIZE (drop (k * BATCH_SIZE) xs) = chunk xs k"
proof (rule nth_equalityI)
  show "length (take BATCH_SIZE (drop (k * BATCH_SIZE) xs)) = length (chunk xs k)"
    by (simp add: chunk_def BATCH_SIZE_def)
next
  fix i
  assume "i < length (take BATCH_SIZE (drop (k * BATCH_SIZE) xs))"
  then have "i < 50" "k * 50 + i < length xs"
    by (auto simp: BATCH_SIZE_def)
  then show "take BATCH_SIZE (drop (k * BATCH_SIZE) xs) ! i = chunk xs k ! i"
    by (simp add: chunk_def BATCH_SIZE_def)
qed

lemma fetch_batch_sent:
  "fetch_batch rm batch w = (r, w1) \<Longrightarrow>
   sent w1 = sent w @ [details_request batch] \<and> fs w1 = fs w"
  by (auto simp: fetch_batch_def time_sleep_def split: prod.splits sum.splits
      dest: requests_post_sent)

lemma fetch_batch_failure:
  assumes "fetch_batch rm batch w = (r, w1)"
    and "transport_failure (rm (length (sent w)) (details_request batch))"
  shows "\<exists>e. r = Inl e \<and> is_transport_error e"
proof -
  obtain r0 w0 where p: "requests_post rm (details_request batch) w = (r0, w0)"
    by (cases "requests_post rm (details_request batch) w")
  from requests_post_failure [OF p assms(2)] assms(1) p show ?thesis
    by (auto simp: fetch_batch_def split: sum.splits)
qed

lemma batch_loop_done:
  "\<not> i < length ids \<Longrightarrow> batch_loop rm ids i result w = (Inr result, w)"
  by (simp add: batch_loop.simps [of rm ids i])

lemma batch_loop_raise:
  "i < length ids \<Longrightarrow> fetch_batch rm (take BATCH_SIZE (drop i ids)) w = (Inl e, w1) \<Longrightarrow>
   batch_loop rm ids i result w = (Inl e, w1)"
  by (simp add: batch_loop.simps [of rm ids i])

lemma batch_loop_step:
  "i < length ids \<Longrightarrow> fetch_batch rm (take BATCH_SIZE (drop i ids)) w = (Inr recs, w1) \<Longrightarrow>
   batch_loop rm ids i result w = batch_loop rm ids (i + BATCH_SIZE) (result @ recs) w1"
  by (simp add: batch_loop.simps [of rm ids i])

lemma batch_loop_prefix:
  "batch_loop rm ids i result w = (r, w') \<Longrightarrow> \<exists>log. sent w' = sent w @ log"
proof (induction rm ids i result w rule: batch_loop.induct)
  case (1 rm ids i result w)
  show ?case
  proof (cases "i < length ids")
    case False
    with "1.prems" show ?thesis by (simp add: batch_loop_done)
  next
    case True
    obtain r1 w1 where f: "fetch_batch rm (take BATCH_SIZE (drop i ids)) w = (r1, w1)"
      by (cases "fetch_batch rm (take BATCH_SIZE (drop i ids)) w")
    note s1 = fetch_batch_sent [OF f]
    show ?thesis
    proof (cases r1)
      case (Inl e)
      with True f "1.prems" s1 show ?thesis by (simp add: batch_loop_raise)
    next
      case (Inr recs)
      with True f "1.prems" have
        "batch_loop rm ids (i + BATCH_SIZE) (result @ recs) w1 = (r, w')"
        by (simp add: batch_loop_step)
      from "1.IH" [OF True f [symmetric] Inr this] s1 show ?thesis by auto
    qed
  qed
qed

lemma batch_loop_sent:
  "batch_loop rm ids (j * BATCH_SIZE) result w = (r, w') \<Longrightarrow>
   \<exists>m. m \<le> n_batches (length ids) - j \<and>
       sent w' = sent w @ map (\<lambda>k. details_request (chunk ids k)) [j..<j + m] \<and>
       fs w' = fs w \<and>
       (\<forall>items. r = Inr items \<longrightarrow> m = n_batches (length ids) - j)"
proof (induction rm ids "j * BATCH_SIZE" result w arbitrary: j rule: batch_loop.induct)
  case (1 rm ids result w)
  let ?i = "j * BATCH_SIZE"
  show ?case
  proof (cases "?i < length ids")
    case False
    with "1.prems" have "r = Inr result" "w' = w"
      by (simp_all add: batch_loop_done)
    moreover from False have "n_batches (length ids) - j = 0"
      by (simp add: n_batches_div BATCH_SIZE_def)
    ultimately show ?thesis by simp
  next
    case True
    obtain r1 w1 where f: "fetch_batch rm (take BATCH_SIZE (drop ?i ids)) w = (r1, w1)"
      by (cases "fetch_batch rm (take BATCH_SIZE (drop ?i ids)) w")
    from fetch_batch_sent [OF f]
    have s1: "sent w1 = sent w @ [details_request (chunk ids j)]" and f1: "fs w1 = fs w"
      by (simp_all add: take_drop_chunk)
    from True have pos: "0 < n_batches (length ids) - j"
      by (simp add: n_batches_div BATCH_SIZE_def)
    show ?thesis
    proof (cases r1)
      case (Inl e)
      with True f "1.prems" have "r = Inl e" "w' = w1"
        by (simp_all add: batch_loop_raise)
      with s1 f1 pos show ?thesis
        by (intro exI [of _ 1]) simp
    next
      case (Inr recs)
      have step: "?i + BATCH_SIZE = Suc j * BATCH_SIZE"
        by simp
      from Inr True f "1.prems" have
        "batch_loop rm ids (?i + BATCH_SIZE) (result @ recs) w1 = (r, w')"
        by (simp only: batch_loop_step)
      then have loop: "batch_loop rm ids (Suc j * BATCH_SIZE) (result @ recs) w1 = (r, w')"
        by (simp only: step)
      from "1.hyps" [OF True f [symmetric] Inr step loop]
      obtain m where m: "m \<le> n_batches (length ids) - Suc j"
        and s: "sent w' = sent w1 @ map (\<lambda>k. details_request (chunk ids k)) [Suc j..<Suc j + m]"
        and f': "fs w' = fs w1"
        and ok: "\<forall>items. r = Inr items \<longrightarrow> m = n_batches (length ids) - Suc j"
        by blast
      have "[j..<j + Suc m] = j # [Suc j..<Suc j + m]"
        by (simp add: upt_conv_Cons)
      with m s s1 f' f1 ok pos show ?thesis
        by (intro exI [of _ "Suc m"]) auto
    qed
  qed
qed

lemma batch_loop_failure:
  "batch_loop rm ids i result w = (r, w') \<Longrightarrow>
   length (sent w) \<le> k \<Longrightarrow> k < length (sent w') \<Longrightarrow>
   transport_failure (rm k (sent w' ! k)) \<Longrightarrow>
   \<exists>e. r = Inl e \<and> is_transport_error e"
proof (induction rm ids i result w rule: batch_loop.induct)
  case (1 rm ids i result w)
  show ?case
  proof (cases "i < length ids")
    case False
    with "1.prems" show ?thesis
      by (simp add: batch_loop_done)
  next
    case True
    let ?q = "details_request (take BATCH_SIZE (drop i ids))"
    obtain r1 w1 where f: "fetch_batch rm (take BATCH_SIZE (drop i ids)) w = (r1, w1)"
      by (cases "fetch_batch rm (take BATCH_SIZE (drop i ids)) w")
    from fetch_batch_sent [OF f] have s1: "sent w1 = sent w @ [?q]"
      by simp
    show ?thesis
    proof (cases r1)
      case (Inl e)
      with True f "1.prems"(1) have rw: "r = Inl e" "w' = w1"
        by (simp_all add: batch_loop_raise)
      with s1 "1.prems" have "k = length (sent w)" by simp
      with "1.prems"(4) rw s1 have "transport_failure (rm (length (sent w)) ?q)"
        by simp
      from fetch_batch_failure [OF f this] rw Inl show ?thesis by simp
    next
      case (Inr recs)
      with True f "1.prems"(1) have
        loop: "batch_loop rm ids (i + BATCH_SIZE) (result @ recs) w1 = (r, w')"
        by (simp add: batch_loop_step)
      from batch_loop_prefix [OF loop] s1 obtain log where
        s': "sent w' = sent w @ ?q # log"
        by auto
      have "k \<noteq> length (sent w)"
      proof
        assume "k = length (sent w)"
        with "1.prems"(4) s' have "transport_failure (rm (length (sent w)) ?q)"
          by simp
        from fetch_batch_failure [OF f this] Inr show False by simp
      qed
      with "1.prems"(2) s1 have "length (sent w1) \<le> k" by simp
      from "1.IH" [OF True f [symmetric] Inr loop this "1.prems"(3) "1.prems"(4)]
      show ?thesis .
    qed
  qed
qed








section \<open>UTF-8 keeps the order of strings\<close>

lemma div_mod_less:
  fixes c d b :: nat
  assumes "c < d"
  shows "c div b < d div b \<or> c div b = d div b \<and> c mod b < d mod b"
proof (cases "c div b = d div b")
  case True
  have "c = d div b * b + c mod b"
    using True div_mult_mod_eq [of c b] by simp
  moreover have "d = d div b * b + d mod b"
    using div_mult_mod_eq [of d b] by simp
  ultimately have "c mod b < d mod b" using assms by linarith
  with True show ?thesis by simp
next
  case False
  moreover have "c div b \<le> d div b"
    using assms by (simp add: div_le_mono)
  ultimately show ?thesis by simp
qed

lemma digit_mod: "(c mod (b * b')) mod b = c mod (b::nat)"
  by (simp add: mod_mod_cancel)

lemma digit_div: "(c mod (b * b')) div b = c div b mod (b'::nat)"
proof (cases "b = 0")
  case True
  then show ?thesis by simp
next
  case False
  have "c mod (b * b') = b * (c div b mod b') + c mod b"
    by (rule mod_mult2_eq)
  with False show ?thesis by simp
qed

lemma less_digits3:
  fixes c d b :: nat
  assumes "c < d"
  shows "c div (b * b) < d div (b * b) \<or> c div (b * b) = d div (b * b) \<and>
     (c div b mod b < d div b mod b \<or> c div b mod b = d div b mod b \<and> c mod b < d mod b)"
proof -
  from div_mod_less [OF assms, of "b * b"] show ?thesis
  proof
    assume "c div (b * b) < d div (b * b)"
    then show ?thesis by blast
  next
    assume e: "c div (b * b) = d div (b * b) \<and> c mod (b * b) < d mod (b * b)"
    then have "c mod (b * b) < d mod (b * b)" by blast
    from div_mod_less [OF this, of b] e show ?thesis
      unfolding digit_div digit_mod by blast
  qed
qed

lemma less_digits4:
  fixes c d b :: nat
  assumes "c < d"
  shows "c div (b * b * b) < d div (b * b * b) \<or> c div (b * b * b) = d div (b * b * b) \<and>
     (c div (b * b) mod b < d div (b * b) mod b \<or>
      c div (b * b) mod b = d div (b * b) mod b \<and>
      (c div b mod b < d div b mod b \<or> c div b mod b = d div b mod b \<and> c mod b < d mod b))"
proof -
  have m: "c mod (b * b * b) div b mod b = c div b mod b" "d mod (b * b * b) div b mod b = d div b mod b"
    "c mod (b * b * b) mod b = c mod b" "d mod (b * b * b) mod b = d mod b"
    using digit_div [of c b "b * b"] digit_div [of d b "b * b"]
      digit_mod [of c b "b * b"] digit_mod [of d b "b * b"]
    by (simp_all add: mult.assoc digit_mod)
  from div_mod_less [OF assms, of "b * b * b"] show ?thesis
  proof
    assume "c div (b * b * b) < d div (b * b * b)"
    then show ?thesis by blast
  next
    assume e: "c div (b * b * b) = d div (b * b * b) \<and> c mod (b * b * b) < d mod (b * b * b)"
    then have "c mod (b * b * b) < d mod (b * b * b)" by blast
    from less_digits3 [OF this, of b] e show ?thesis
      unfolding digit_div m by blast
  qed
qed

lemma less_3:
  "(c::nat) < d \<Longrightarrow> c div 0x1000 < d div 0x1000 \<or> c div 0x1000 = d div 0x1000 \<and>
     (c div 0x40 mod 0x40 < d div 0x40 mod 0x40 \<or> c div 0x40 mod 0x40 = d div 0x40 mod 0x40 \<and>
      c mod 0x40 < d mod 0x40)"
  using less_digits3 [of c d 64] by simp

lemma less_4:
  "(c::nat) < d \<Longrightarrow> c div 0x40000 < d div 0x40000 \<or> c div 0x40000 = d div 0x40000 \<and>
     (c div 0x1000 mod 0x40 < d div 0x1000 mod 0x40 \<or>
      c div 0x1000 mod 0x40 = d div 0x1000 mod 0x40 \<and>
      (c div 0x40 mod 0x40 < d div 0x40 mod 0x40 \<or> c div 0x40 mod 0x40 = d div 0x40 mod 0x40 \<and>
       c mod 0x40 < d mod 0x40))"
  using less_digits4 [of c d 64] by simp

lemma utf8_char_form:
  "utf8_char c = Inr b \<Longrightarrow>
   (c < 0x80 \<and> b = [c]) \<or>
   (0x80 \<le> c \<and> c < 0x800 \<and> b = [0xC0 + c div 0x40, 0x80 + c mod 0x40]) \<or>
   (0x800 \<le> c \<and> c < 0x10000 \<and>
      b = [0xE0 + c div 0x1000, 0x80 + c div 0x40 mod 0x40, 0x80 + c mod 0x40]) \<or>
   (0x10000 \<le> c \<and> c < 0x110000 \<and>
      b = [0xF0 + c div 0x40000, 0x80 + c div 0x1000 mod 0x40,
           0x80 + c div 0x40 mod 0x40, 0x80 + c mod 0x40])"
  by (auto simp: utf8_char_def split: if_splits)

lemma utf8_char_nonempty: "utf8_char c = Inr b \<Longrightarrow> b \<noteq> []"
  by (auto dest: utf8_char_form)

lemma utf8_char_less:
  assumes "c < d" and c: "utf8_char c = Inr bc" and d: "utf8_char d = Inr bd"
  shows "bc @ r < bd @ r'"
proof -
  have l2: "x div 0x40 < 32" if "x < 0x800" for x :: nat
    using that by (simp add: less_mult_imp_div_less)
  have l3: "x div 0x1000 < 16" if "x < 0x10000" for x :: nat
    using that by (simp add: less_mult_imp_div_less)
  note d2 = div_mod_less [OF assms(1), of "0x40"]
  note d3 = less_3 [OF assms(1)]
  note d4 = less_4 [OF assms(1)]
  from utf8_char_form [OF c] show ?thesis
  proof (elim disjE conjE)
    assume c1: "c < 0x80" "bc = [c]"
    from utf8_char_form [OF d] assms(1) c1 show ?thesis
      by (elim disjE conjE) simp_all
  next
    assume c2: "0x80 \<le> c" "c < 0x800" "bc = [0xC0 + c div 0x40, 0x80 + c mod 0x40]"
    from utf8_char_form [OF d] assms(1) c2 l2 [OF c2(2)] d2 show ?thesis
      by (elim disjE conjE) auto
  next
    assume c3: "0x800 \<le> c" "c < 0x10000"
      "bc = [0xE0 + c div 0x1000, 0x80 + c div 0x40 mod 0x40, 0x80 + c mod 0x40]"
    from utf8_char_form [OF d] assms(1) c3 l3 [OF c3(2)] d3 show ?thesis
      by (elim disjE conjE) auto
  next
    assume c4: "0x10000 \<le> c" "c < 0x110000"
      "bc = [0xF0 + c div 0x40000, 0x80 + c div 0x1000 mod 0x40,
           0x80 + c div 0x40 mod 0x40, 0x80 + c mod 0x40]"
    from utf8_char_form [OF d] assms(1) c4 d4 show ?thesis
      by (elim disjE conjE) auto
  qed
qed

lemma append_less_append: "xs @ ys < xs @ zs \<longleftrightarrow> ys < (zs :: nat list)"
  by (induction xs) simp_all

lemma utf8_Cons_Inr:
  "utf8 (c # cs) = Inr b \<longleftrightarrow>
   (\<exists>bc bs. utf8_char c = Inr bc \<and> utf8 cs = Inr bs \<and> b = bc @ bs)"
  by (auto simp: and_then_eq_Inr)

lemma utf8_less:
  "s < t \<Longrightarrow> utf8 s = Inr bs \<Longrightarrow> utf8 t = Inr bt \<Longrightarrow> bs < bt"
proof (induction s arbitrary: t bs bt)
  case Nil
  then obtain d t' where t: "t = d # t'" by (cases t) auto
  with Nil.prems(3) obtain bd rt where "utf8_char d = Inr bd" "bt = bd @ rt"
    by (auto simp: utf8_Cons_Inr simp del: utf8.simps)
  with utf8_char_nonempty [of d bd] have "bt \<noteq> []" by simp
  with Nil.prems(2) show ?case by (cases bt) simp_all
next
  case (Cons c s)
  then obtain d t' where t: "t = d # t'" by (cases t) auto
  from Cons.prems(2) obtain bc rs where c: "utf8_char c = Inr bc" "utf8 s = Inr rs"
    "bs = bc @ rs"
    by (auto simp: utf8_Cons_Inr simp del: utf8.simps)
  from Cons.prems(3) t obtain bd rt where d: "utf8_char d = Inr bd" "utf8 t' = Inr rt"
    "bt = bd @ rt"
    by (auto simp: utf8_Cons_Inr simp del: utf8.simps)
  from Cons.prems(1) t consider "c < d" | "c = d" "s < t'" by auto
  then show ?case
  proof cases
    case 1
    from utf8_char_less [OF 1 c(1) d(1)] c(3) d(3) show ?thesis by simp
  next
    case 2
    from Cons.IH [OF 2(2) c(2) d(2)] 2(1) c d show ?thesis
      by (simp add: append_less_append)
  qed
qed

lemma sorted_utf8:
  assumes "sorted ls" and "list_all (\<lambda>l. \<not> isl (utf8 l)) ls"
  shows "sorted (map (\<lambda>l. projr (utf8 l)) ls)"
proof -
  have "projr (utf8 x) \<le> projr (utf8 y)" if "x \<in> set ls" "y \<in> set ls" "x \<le> y" for x y
  proof (cases "x = y")
    case True
    then show ?thesis by simp
  next
    case False
    with that(3) have "x < y" by simp
    moreover from that(1,2) assms(2) obtain bx "by" where "utf8 x = Inr bx" "utf8 y = Inr by"
      by (cases "utf8 x"; cases "utf8 y") (auto simp: list_all_iff)
    ultimately show ?thesis using utf8_less [of x y bx "by"] by simp
  qed
  with assms(1) show ?thesis
    unfolding sorted_map by (rule sorted_wrt_mono_rel [rotated])
qed

section \<open>The manifest lines\<close>

lemma has_title_JObj:
  "has_title (JObj kvs) =
     (case map_of kvs (ascii ''title'') of Some (JStr s) \<Rightarrow> s \<noteq> [] | _ \<Rightarrow> False)"
  by (simp add: has_title_def split: option.splits json.splits)

lemma line_of_JObj:
  "map_of kvs (ascii ''title'') = Some (JStr s) \<Longrightarrow>
   map_of kvs (ascii ''publishedfileid'') = Some i \<Longrightarrow>
   line_of rt (JObj kvs) = strip s @ ascii '':'' @ format_value rt i"
  by (simp add: line_of_def)

lemma rendered_member_records:
  "list_all member_record items \<Longrightarrow>
   rendered rt items = Inr (map (line_of rt) (filter has_title items))"
proof (induction items)
  case Nil
  show ?case by simp
next
  case (Cons item items)
  then have m: "member_record item"
    and ih: "rendered rt items = Inr (map (line_of rt) (filter has_title items))"
    by simp_all
  from m obtain kvs i where item: "item = JObj kvs"
    and i: "map_of kvs (ascii ''publishedfileid'') = Some i"
    by (auto simp: member_record_def split: json.splits)
  from m item consider "map_of kvs (ascii ''title'') = None"
    | "map_of kvs (ascii ''title'') = Some JNull"
    | s where "map_of kvs (ascii ''title'') = Some (JStr s)"
    by (auto simp: member_record_def split: option.splits json.splits)
  then show ?case
  proof cases
    case 1
    then show ?thesis using item ih by (simp add: has_title_JObj)
  next
    case 2
    then show ?thesis using item ih by (simp add: has_title_JObj)
  next
    case 3
    then show ?thesis using item ih i by (simp add: has_title_JObj render_def line_of_JObj)
  qed
qed

text \<open>
  C2, as the code has it. \<open>sorted\<close> does not drop anything: the lines of the manifest are
  the rendered lines of the surviving records, each as often as it was rendered, in
  non-decreasing order of their code points, which is also the byte-wise order of their
  UTF-8 encodings. Two records that render alike give the same line twice.
\<close>

theorem manifest_sorted_keeps_duplicates:
  assumes "manifest_lines rt items = Inr ls"
  shows "sorted ls \<and>
    (list_all (\<lambda>l. \<not> isl (utf8 l)) ls \<longrightarrow> sorted (map (\<lambda>l. projr (utf8 l)) ls)) \<and>
    (\<exists>rs. rendered rt items = Inr rs \<and> mset ls = mset rs)"
proof -
  from assms have "sorted ls" and "\<exists>rs. rendered rt items = Inr rs \<and> mset ls = mset rs"
    by (auto simp: manifest_lines_def and_then_eq_Inr)
  then show ?thesis by (simp add: sorted_utf8)
qed

theorem manifest_sorted_keeps_duplicates_witness:
  "manifest_lines rt0 [record_of ''Dust2'' ''1'', record_of ''Aztec'' ''6''] =
     Inr [ascii ''Aztec:6'', ascii ''Dust2:1''] \<and>
   sorted [ascii ''Aztec:6'', ascii ''Dust2:1''] \<and>
   list_all (\<lambda>l. \<not> isl (utf8 l)) [ascii ''Aztec:6'', ascii ''Dust2:1''] \<and>
   sorted (map (\<lambda>l. projr (utf8 l)) [ascii ''Aztec:6'', ascii ''Dust2:1'']) \<and>
   (\<exists>rs. rendered rt0 [record_of ''Dust2'' ''1'', record_of ''Aztec'' ''6''] = Inr rs \<and>
      mset [ascii ''Aztec:6'', ascii ''Dust2:1''] = mset rs)"
proof -
  have run: "manifest_lines rt0 [record_of ''Dust2'' ''1'', record_of ''Aztec'' ''6''] =
     Inr [ascii ''Aztec:6'', ascii ''Dust2:1'']"
    by (simp add: manifest_lines_def record_of_def ascii_def render_def strip_def
        isspace_def format_value_def)
  have enc: "list_all (\<lambda>l. \<not> isl (utf8 l)) [ascii ''Aztec:6'', ascii ''Dust2:1'']"
    by (simp add: ascii_def utf8_char_def)
  from manifest_sorted_keeps_duplicates [OF run] run enc show ?thesis
    by simp
qed

theorem duplicate_lines_counterexample:
  "manifest_lines rt0 [record_of ''Dust2'' ''1'', record_of ''Dust2'' ''1''] =
     Inr [ascii ''Dust2:1'', ascii ''Dust2:1''] \<and>
   \<not> distinct [ascii ''Dust2:1'', ascii ''Dust2:1'']"
  by (simp add: manifest_lines_def record_of_def ascii_def render_def strip_def
      isspace_def format_value_def)

text \<open>
  C3, as the code has it. The filter looks at the title as it is, before it is trimmed:
  a member record is left out exactly when its title is absent, \<open>null\<close> or the empty
  string, and every other record gives the line of its trimmed title, a colon and its
  identifier. A title of white space alone survives and gives the line \<open>":<id>"\<close>; the
  title \<open>"  Dust2  "\<close> gives \<open>"Dust2:<id>"\<close>.
\<close>

theorem manifest_filter_and_render:
  "list_all member_record items \<Longrightarrow>
   manifest_lines rt items = Inr (sort (map (line_of rt) (filter has_title items)))"
  by (simp add: manifest_lines_def rendered_member_records)

theorem manifest_filter_and_render_witness:
  "list_all member_record example_records \<and>
   filter has_title example_records =
     [record_of ''  Dust2  '' ''1'', record_of ''   '' ''2'', record_of ''Aztec'' ''6''] \<and>
   manifest_lines rt0 example_records =
     Inr [ascii '':2'', ascii ''Aztec:6'', ascii ''Dust2:1'']"
proof -
  have m: "list_all member_record example_records"
    by (simp add: example_records_def record_of_def member_record_def ascii_def)
  have f: "filter has_title example_records =
     [record_of ''  Dust2  '' ''1'', record_of ''   '' ''2'', record_of ''Aztec'' ''6'']"
    by (simp add: example_records_def record_of_def has_title_JObj ascii_def)
  have "map (line_of rt0)
      [record_of ''  Dust2  '' ''1'', record_of ''   '' ''2'', record_of ''Aztec'' ''6''] =
     [ascii ''Dust2:1'', ascii '':2'', ascii ''Aztec:6'']"
    by (simp add: record_of_def line_of_def ascii_def strip_def isspace_def format_value_def)
  with manifest_filter_and_render [OF m, of rt0] m f show ?thesis
    by (simp add: ascii_def)
qed

theorem whitespace_title_counterexample:
  "strip (ascii ''   '') = [] \<and>
   manifest_lines rt0 [record_of ''   '' ''2''] = Inr [ascii '':2'']"
  by (simp add: manifest_lines_def record_of_def ascii_def render_def strip_def
      isspace_def format_value_def)

section \<open>The whole run\<close>

lemma write_manifest_node:
  "write_manifest rt out lines f = (r, f') \<Longrightarrow> node f' = node f"
  by (auto simp: write_manifest_def makedirs_def open_w_def write_text_def Let_def and_then_def
      split: sum.splits if_splits)


lemma write_manifest_success:
  "write_manifest rt out lines f = (Inr path, f') \<Longrightarrow>
   path = path_join rt out (ascii ''maplist.txt'') \<and> out \<in> dirs f' \<and>
   (\<exists>content. manifest_bytes rt lines = Inr content \<and> files f' path = Some content)"
  by (auto simp: write_manifest_def makedirs_def open_w_def write_text_def Let_def and_then_def
      manifest_bytes_def ascii_def files_def dirs_def split: sum.splits if_splits)




lemma get_published_file_details_world:
  assumes "get_published_file_details rm ids w = (r, w')"
  shows "fs w' = fs w \<and> (\<exists>log. sent w' = sent w @ log)"
proof -
  from assms have "batch_loop rm ids (0 * BATCH_SIZE) [] w = (r, w')"
    by (simp add: get_published_file_details_def)
  from batch_loop_sent [OF this] show ?thesis by auto
qed

lemma get_published_file_details_failure:
  "get_published_file_details rm ids w = (r, w') \<Longrightarrow>
   length (sent w) \<le> k \<Longrightarrow> k < length (sent w') \<Longrightarrow>
   transport_failure (rm k (sent w' ! k)) \<Longrightarrow>
   \<exists>e. r = Inl e \<and> is_transport_error e"
  unfolding get_published_file_details_def by (rule batch_loop_failure)

lemma generate_maplist_cases:
  assumes "generate_maplist rt rm cid out w = (r, w')"
  obtains
    (resolver) e where "get_collection_item_ids rm cid w = (Inl e, w')" "r = Inl e"
  | (batcher) ids w1 e where "get_collection_item_ids rm cid w = (Inr ids, w1)"
      "get_published_file_details rm ids w1 = (Inl e, w')" "r = Inl e"
  | (builder) ids w1 items e where "get_collection_item_ids rm cid w = (Inr ids, w1)"
      "get_published_file_details rm ids w1 = (Inr items, w')"
      "manifest_lines rt items = Inl e" "r = Inl e"
  | (writer) ids w1 items w2 lines f where "get_collection_item_ids rm cid w = (Inr ids, w1)"
      "get_published_file_details rm ids w1 = (Inr items, w2)"
      "manifest_lines rt items = Inr lines"
      "write_manifest rt out lines (fs w2) = (r, f)" "w' = w2\<lparr>fs := f\<rparr>"
  using assms
  by (auto simp: generate_maplist_def split: prod.splits sum.splits)

lemma get_published_file_details_Nil: "get_published_file_details rm [] w = (Inr [], w)"
  by (simp add: get_published_file_details_def batch_loop_done)

lemma example_run0:
  "generate_maplist rt0 (example_remote 200 [record_of ''Dust2'' ''1'', record_of ''Aztec'' ''6''])
     cid0 (ascii ''out'') empty_world =
   (Inr (ascii ''out/maplist.txt''),
    \<lparr>sent = [collection_request cid0, details_request [JStr (ascii ''1''), JStr (ascii ''6'')]],
     slept = 1,
     fs = example_fs {ascii ''out''} [ascii ''out/maplist.txt'' \<mapsto> ascii ''Aztec:6'' @ [10] @ ascii ''Dust2:1'']\<rparr>)"
  by (simp add: run_defs example_remote_def ascii_def)

lemma example_run:
  "generate_maplist rt0 (example_remote 200 two_records) cid0 (ascii ''out'') empty_world =
   (Inr (ascii ''out/maplist.txt''),
    \<lparr>sent = [collection_request cid0, details_request [JStr (ascii ''1''), JStr (ascii ''6'')]],
     slept = 1,
     fs = example_fs {ascii ''out''} [ascii ''out/maplist.txt'' \<mapsto> ascii ''Aztec:6'' @ [10] @ ascii ''Dust2:1'']\<rparr>)"
  by (simp add: two_records_def example_run0)

lemma failing_run:
  "generate_maplist rt0 failing_remote cid0 (ascii ''out'') empty_world =
   (Inl (HTTPError 500),
    \<lparr>sent = [collection_request cid0, details_request [JStr (ascii ''1''), JStr (ascii ''6'')]],
     slept = 0, fs = example_fs {} Map.empty\<rparr>)"
  by (simp add: run_defs failing_remote_def ascii_def)

lemma empty_run:
  "generate_maplist rt0 (answer_with 200 (collection_body [])) cid0 (ascii ''out'') empty_world =
   (Inr (ascii ''out/maplist.txt''),
    \<lparr>sent = [collection_request cid0], slept = 0,
     fs = example_fs {ascii ''out''} [ascii ''out/maplist.txt'' \<mapsto> []]\<rparr>)"
  by (simp add: run_defs answer_with_def ascii_def)

lemma empty_resolved:
  "get_collection_item_ids (answer_with 200 (collection_body [])) cid0 empty_world =
   (Inr [], \<lparr>sent = [collection_request cid0], slept = 0,
     fs = example_fs {} Map.empty\<rparr>)"
  by (simp add: run_defs answer_with_def ascii_def)

text \<open>
  C4, as the code has it. A request fails in transport when no reply arrives (no
  connection, or none within the timeout) or when the reply has a status from 400 to 599,
  the statuses for which \<open>raise_for_status\<close> raises. If any request of a run fails so, be
  it the collection request or a details request, \<open>generate_maplist\<close> ends with the
  transport exception and the file system is as it was before the run: no directory made,
  no file written, the records fetched so far dropped. A reply with any other status,
  such as 300, is read like a reply with status 200.
\<close>

theorem transport_failure_aborts:
  assumes run: "generate_maplist rt rm cid out w = (r, w')"
    and k: "length (sent w) \<le> k" "k < length (sent w')"
    and failure: "transport_failure (rm k (sent w' ! k))"
  shows "(\<exists>e. r = Inl e \<and> is_transport_error e) \<and> fs w' = fs w"
proof -
  let ?q = "collection_request cid"
  have first: "\<exists>e. r0 = Inl e \<and> is_transport_error e"
    if "get_collection_item_ids rm cid w = (r0, w1)" "sent w' = sent w @ ?q # log"
      "k = length (sent w)" for r0 w1 log
  proof -
    from that(2,3) failure have "transport_failure (rm (length (sent w)) ?q)" by simp
    with that(1) show ?thesis by (rule get_collection_item_ids_failure)
  qed
  from run show ?thesis
  proof (cases rule: generate_maplist_cases)
    case (resolver e)
    note s = get_collection_item_ids_sent [OF resolver(1)]
    with k have "k = length (sent w)" by simp
    with first [OF resolver(1), of "[]"] s resolver(2) show ?thesis by simp
  next
    case (batcher ids w1 e)
    note s = get_collection_item_ids_sent [OF batcher(1)]
    note d = get_published_file_details_world [OF batcher(2)]
    from s d obtain log where log: "sent w' = sent w @ ?q # log" by auto
    have "k \<noteq> length (sent w)"
      using first [OF batcher(1) log] by auto
    with k s have "length (sent w1) \<le> k" by simp
    from get_published_file_details_failure [OF batcher(2) this k(2) failure] batcher(3) s d
    show ?thesis by simp
  next
    case (builder ids w1 items e)
    note s = get_collection_item_ids_sent [OF builder(1)]
    note d = get_published_file_details_world [OF builder(2)]
    from s d obtain log where log: "sent w' = sent w @ ?q # log" by auto
    have "k \<noteq> length (sent w)"
      using first [OF builder(1) log] by auto
    with k s have "length (sent w1) \<le> k" by simp
    from get_published_file_details_failure [OF builder(2) this k(2) failure]
    show ?thesis by simp
  next
    case (writer ids w1 items w2 lines f)
    note s = get_collection_item_ids_sent [OF writer(1)]
    note d = get_published_file_details_world [OF writer(2)]
    from s d writer(5) obtain log where log: "sent w' = sent w @ ?q # log" by auto
    have "k \<noteq> length (sent w)"
      using first [OF writer(1) log] by auto
    with k s have "length (sent w1) \<le> k" by simp
    moreover from k(2) writer(5) have "k < length (sent w2)" by simp
    moreover from failure writer(5) have "transport_failure (rm k (sent w2 ! k))" by simp
    ultimately show ?thesis
      using get_published_file_details_failure [OF writer(2)] by blast
  qed
qed

theorem transport_failure_aborts_witness:
  "transport_failure
     (failing_remote 1 (details_request [JStr (ascii ''1''), JStr (ascii ''6'')])) \<and>
   (\<exists>e. fst (generate_maplist rt0 failing_remote cid0 (ascii ''out'') empty_world) = Inl e \<and>
      is_transport_error e) \<and>
   fs (snd (generate_maplist rt0 failing_remote cid0 (ascii ''out'') empty_world)) =
     fs empty_world"
proof -
  let ?w = "\<lparr>sent = [collection_request cid0,
      details_request [JStr (ascii ''1''), JStr (ascii ''6'')]],
     slept = 0, fs = example_fs {} Map.empty\<rparr>"
  have f: "transport_failure
     (failing_remote 1 (details_request [JStr (ascii ''1''), JStr (ascii ''6'')]))"
    by (simp add: transport_failure_def failing_remote_def)
  then have "transport_failure (failing_remote 1 (sent ?w ! 1))" by simp
  with transport_failure_aborts [OF failing_run, of 1]
  have "(\<exists>e. Inl (HTTPError 500) = Inl e \<and> is_transport_error e) \<and> fs ?w = fs empty_world"
    by (simp add: empty_world_def)
  with f show ?thesis unfolding failing_run by simp
qed

theorem status_300_counterexample:
  "example_remote 300 two_records 0 (collection_request cid0) =
     Answer (Response 300 (Some (collection_body [child ''1'', child ''6'']))) \<and>
   \<not> (200 \<le> (300::nat) \<and> (300::nat) < 300) \<and>
   fst (generate_maplist rt0 (example_remote 300 two_records) cid0 (ascii ''out'') empty_world) =
     Inr (ascii ''out/maplist.txt'') \<and>
   files (fs (snd (generate_maplist rt0 (example_remote 300 two_records) cid0 (ascii ''out'')
     empty_world))) (ascii ''out/maplist.txt'') =
     Some (ascii ''Aztec:6'' @ [10] @ ascii ''Dust2:1'')"
  by (simp add: run_defs example_remote_def two_records_def ascii_def)

text \<open>
  C6. For the empty sequence of identifiers \<open>get_published_file_details\<close> sends nothing,
  does not pause and returns the empty sequence; the manifest of no records has no lines;
  and when the resolver returns no identifiers, the file a successful run writes is empty.
\<close>

theorem empty_collection:
  "get_published_file_details rm [] w0 = (Inr [], w0) \<and>
   manifest_lines rt [] = Inr [] \<and>
   (get_collection_item_ids rm cid w = (Inr [], w1) \<longrightarrow>
    generate_maplist rt rm cid out w = (Inr path, w') \<longrightarrow>
    sent w' = sent w1 \<and> files (fs w') path = Some [])"
proof (intro conjI impI)
  show "get_published_file_details rm [] w0 = (Inr [], w0)"
    by (rule get_published_file_details_Nil)
  show "manifest_lines rt [] = Inr []"
    by (simp add: manifest_lines_def)
next
  assume gc: "get_collection_item_ids rm cid w = (Inr [], w1)"
    and run: "generate_maplist rt rm cid out w = (Inr path, w')"
  from run gc have wm: "write_manifest rt out [] (fs w1) = (Inr path, fs w')" and s: "sent w' = sent w1"
    by (auto simp: generate_maplist_def get_published_file_details_Nil manifest_lines_def
        split: prod.splits)
  from write_manifest_success [OF wm] have "files (fs w') path = Some []"
    by (auto simp: manifest_bytes_def translate_newlines_def)
  with s show "sent w' = sent w1" "files (fs w') path = Some []" by simp_all
qed

theorem empty_collection_witness:
  "get_collection_item_ids (answer_with 200 (collection_body [])) cid0 empty_world =
     (Inr [], \<lparr>sent = [collection_request cid0], slept = 0,
       fs = example_fs {} Map.empty\<rparr>) \<and>
   fst (generate_maplist rt0 (answer_with 200 (collection_body [])) cid0 (ascii ''out'')
     empty_world) = Inr (ascii ''out/maplist.txt'') \<and>
   sent (snd (generate_maplist rt0 (answer_with 200 (collection_body [])) cid0 (ascii ''out'')
     empty_world)) = [collection_request cid0] \<and>
   files (fs (snd (generate_maplist rt0 (answer_with 200 (collection_body [])) cid0
     (ascii ''out'') empty_world))) (ascii ''out/maplist.txt'') = Some []"
  using empty_collection [of "answer_with 200 (collection_body [])" empty_world rt0 cid0
      empty_world "\<lparr>sent = [collection_request cid0], slept = 0,
       fs = example_fs {} Map.empty\<rparr>" "ascii ''out''" "ascii ''out/maplist.txt''"
      "\<lparr>sent = [collection_request cid0], slept = 0,
     fs = example_fs {ascii ''out''} [ascii ''out/maplist.txt'' \<mapsto> []]\<rparr>"]
  by (simp add: empty_run empty_resolved)

text \<open>
  C7, as the code has it. A successful run returns \<open>os.path.join(output_dir,
  "maplist.txt")\<close>, the path it opened, which is relative when \<open>output_dir\<close> is; after it
  \<open>output_dir\<close> is a directory and the file holds the UTF-8 encoding of the manifest lines
  joined by \<open>\n\<close> (each written as the platform's line separator), with nothing before and
  nothing after.
\<close>

theorem manifest_file_written:
  assumes "generate_maplist rt rm cid out w = (Inr path, w')"
  shows "path = path_join rt out (ascii ''maplist.txt'') \<and> out \<in> dirs (fs w') \<and>
    (\<exists>ids w1 items w2 lines content.
       get_collection_item_ids rm cid w = (Inr ids, w1) \<and>
       get_published_file_details rm ids w1 = (Inr items, w2) \<and>
       manifest_lines rt items = Inr lines \<and>
       utf8 (translate_newlines (linesep rt) (join [10] lines)) = Inr content \<and>
       files (fs w') path = Some content)"
  using assms
proof (cases rule: generate_maplist_cases)
  case (writer ids w1 items w2 lines f)
  from write_manifest_success [OF writer(4)] writer show ?thesis
    by (auto simp: manifest_bytes_def)
qed simp_all

theorem manifest_file_written_witness:
  "fst (generate_maplist rt0 (example_remote 200 two_records) cid0 (ascii ''out'') empty_world) =
     Inr (ascii ''out/maplist.txt'') \<and>
   ascii ''out/maplist.txt'' = path_join rt0 (ascii ''out'') (ascii ''maplist.txt'') \<and>
   ascii ''out'' \<in> dirs (fs (snd (generate_maplist rt0 (example_remote 200 two_records) cid0
     (ascii ''out'') empty_world))) \<and>
   files (fs (snd (generate_maplist rt0 (example_remote 200 two_records) cid0 (ascii ''out'')
     empty_world))) (ascii ''out/maplist.txt'') =
     Some (ascii ''Aztec:6'' @ [10] @ ascii ''Dust2:1'')"
  unfolding example_run using manifest_file_written [OF example_run]
  by (simp add: rt0_def posix_def posix_join_def ascii_def dirs_def files_def example_fs_def
      example_node_def)

theorem relative_path_counterexample:
  "fst (generate_maplist rt0 (example_remote 200 two_records) cid0 (ascii ''out'') empty_world) =
     Inr (ascii ''out/maplist.txt'') \<and>
   \<not> posix_isabs (ascii ''out/maplist.txt'')"
  unfolding example_run by (simp add: posix_isabs_def ascii_def)

subsection \<open>The order of the records within a reply\<close>

lemma record_list_details:
  "record_list j = Some xs \<Longrightarrow>
   and_then (getitem j (ascii ''response''))
     (\<lambda>a. and_then (getitem a (ascii ''publishedfiledetails'')) iterate) = Inr xs"
  by (cases j) (auto split: option.splits json.splits)

lemma fetch_batch_result:
  "fst (fetch_batch rm batch w) =
     (case rm (length (sent w)) (details_request batch) of
        NetworkFailure \<Rightarrow> Inl ConnectionError
      | TimedOut \<Rightarrow> Inl Timeout
      | Answer r \<Rightarrow>
          and_then (raise_for_status r) (\<lambda>_.
          and_then (response_json r) (\<lambda>j.
          and_then (getitem j (ascii ''response'')) (\<lambda>a.
          and_then (getitem a (ascii ''publishedfiledetails'')) iterate))))"
  by (auto simp: fetch_batch_def requests_post_def split: outcome.splits sum.splits)

lemma same_up_to_order_refl: "same_up_to_order a a"
  by (cases a) (simp_all add: same_up_to_order_def)

lemma same_records_cases:
  assumes "same_records a b"
  obtains (same) "a = b"
  | (reordered) s j j' xs ys where "a = Answer (Response s (Some j))"
      "b = Answer (Response s (Some j'))" "record_list j = Some xs" "record_list j' = Some ys"
      "mset xs = mset ys"
proof (cases "a = b")
  case True
  then show ?thesis by (rule same)
next
  case False
  with assms have c: "case (a, b) of
         (Answer (Response s (Some j)), Answer (Response s' (Some j'))) \<Rightarrow>
           s = s' \<and>
           (case (record_list j, record_list j') of
              (Some xs, Some ys) \<Rightarrow> mset xs = mset ys
            | _ \<Rightarrow> False)
       | _ \<Rightarrow> False"
    by (simp add: same_records_def)
  then obtain ra rb where ab: "a = Answer ra" "b = Answer rb"
    by (cases a; cases b) (auto split: response.splits option.splits)
  obtain s bo s' bo' where r: "ra = Response s bo" "rb = Response s' bo'"
    by (cases ra; cases rb) simp_all
  from c ab r obtain j j' where j: "bo = Some j" "bo' = Some j'"
    by (cases bo; cases bo') simp_all
  from c ab r j have "s = s'" and
    "case (record_list j, record_list j') of (Some xs, Some ys) \<Rightarrow> mset xs = mset ys
       | _ \<Rightarrow> False"
    by simp_all
  then obtain xs ys where "record_list j = Some xs" "record_list j' = Some ys"
    "mset xs = mset ys"
    by (cases "record_list j"; cases "record_list j'") simp_all
  with ab r j \<open>s = s'\<close> show ?thesis using reordered [of s j j' xs ys] by simp
qed

lemma fetch_batch_same_records:
  assumes "same_records (rm1 (length (sent wa)) (details_request batch))
      (rm2 (length (sent wb)) (details_request batch))"
  shows "same_up_to_order (fst (fetch_batch rm1 batch wa)) (fst (fetch_batch rm2 batch wb))"
  using assms
proof (cases rule: same_records_cases)
  case same
  then have "fst (fetch_batch rm1 batch wa) = fst (fetch_batch rm2 batch wb)"
    by (simp add: fetch_batch_result)
  then show ?thesis by (simp add: same_up_to_order_refl)
next
  case (reordered s j j' xs ys)
  show ?thesis
  proof (cases "400 \<le> s \<and> s < 600")
    case True
    with reordered show ?thesis
      by (simp add: fetch_batch_result raise_for_status_def same_up_to_order_def)
  next
    case False
    with reordered record_list_details [OF reordered(3)] record_list_details [OF reordered(4)]
    show ?thesis
      by (auto simp add: fetch_batch_result raise_for_status_def response_json_def
          same_up_to_order_def)
  qed
qed

lemma batch_loop_same_records:
  "\<forall>k k' q. same_records (rm1 k q) (rm2 k' q) \<Longrightarrow> mset resa = mset resb \<Longrightarrow>
   same_up_to_order (fst (batch_loop rm1 ids i resa wa)) (fst (batch_loop rm2 ids i resb wb))"
proof (induction rm1 ids i resa wa arbitrary: resb wb rule: batch_loop.induct)
  case (1 rm1 ids i resa wa)
  note fixed = "1.prems"(1)
  let ?b = "take BATCH_SIZE (drop i ids)"
  show ?case
  proof (cases "i < length ids")
    case False
    with "1.prems" show ?thesis
      by (simp add: batch_loop_done same_up_to_order_def)
  next
    case True
    obtain ra wa1 where fa: "fetch_batch rm1 ?b wa = (ra, wa1)"
      by (cases "fetch_batch rm1 ?b wa")
    obtain rb wb1 where fb: "fetch_batch rm2 ?b wb = (rb, wb1)"
      by (cases "fetch_batch rm2 ?b wb")
    have "same_records (rm1 (length (sent wa)) (details_request ?b))
        (rm2 (length (sent wb)) (details_request ?b))"
      using fixed by blast
    with fetch_batch_same_records [of rm1 wa ?b rm2 wb] fa fb
    have rel: "same_up_to_order ra rb" by simp
    show ?thesis
    proof (cases ra)
      case (Inl e)
      with rel obtain e' where "rb = Inl e'"
        by (cases rb) (simp_all add: same_up_to_order_def)
      with Inl True fa fb show ?thesis
        by (simp add: batch_loop_raise same_up_to_order_def)
    next
      case (Inr xs)
      with rel obtain ys where rb: "rb = Inr ys" and m: "mset xs = mset ys"
        by (cases rb) (simp_all add: same_up_to_order_def)
      from "1.prems"(2) m have "mset (resa @ xs) = mset (resb @ ys)" by simp
      from "1.IH" [OF True fa [symmetric] Inr fixed this, of wb1] Inr rb True fa fb
      show ?thesis
        by (simp add: batch_loop_step)
    qed
  qed
qed

lemma get_published_file_details_same_records:
  "\<forall>k k' q. same_records (rm1 k q) (rm2 k' q) \<Longrightarrow>
   same_up_to_order (fst (get_published_file_details rm1 ids wa))
     (fst (get_published_file_details rm2 ids wb))"
  unfolding get_published_file_details_def by (rule batch_loop_same_records) simp_all

lemma rendered_Cons:
  "rendered rt (item # items) =
     and_then (rendered rt [item]) (\<lambda>a. and_then (rendered rt items) (\<lambda>b. Inr (a @ b)))"
  by (auto simp: and_then_def split: sum.splits)

lemma rendered_all:
  "\<forall>i\<in>set items. \<not> isl (rendered rt [i]) \<Longrightarrow>
   rendered rt items = Inr (concat (map (\<lambda>i. projr (rendered rt [i])) items))"
proof (induction items)
  case Nil
  show ?case by simp
next
  case (Cons item items)
  then obtain l where "rendered rt [item] = Inr l"
    by (cases "rendered rt [item]") auto
  with Cons show ?case
    by (subst rendered_Cons) simp
qed

lemma rendered_some:
  "\<not> (\<forall>i\<in>set items. \<not> isl (rendered rt [i])) \<Longrightarrow> isl (rendered rt items)"
proof (induction items)
  case Nil
  then show ?case by simp
next
  case (Cons item items)
  show ?case
  proof (cases "rendered rt [item]")
    case (Inl e)
    then show ?thesis by (subst rendered_Cons) simp
  next
    case (Inr l)
    with Cons.prems have "\<not> (\<forall>i\<in>set items. \<not> isl (rendered rt [i]))" by simp
    from Cons.IH [OF this] obtain e where "rendered rt items = Inl e"
      by (cases "rendered rt items") auto
    with Inr show ?thesis by (subst rendered_Cons) simp
  qed
qed

lemma mset_concat_map:
  "mset (concat (map f xs)) = (\<Sum>x\<in>#mset xs. mset (f x))"
  by (induction xs) simp_all

lemma manifest_lines_same_records:
  assumes "mset xs = mset ys"
  shows "manifest_lines rt xs = manifest_lines rt ys \<or>
    (isl (manifest_lines rt xs) \<and> isl (manifest_lines rt ys))"
proof (cases "\<forall>i\<in>set xs. \<not> isl (rendered rt [i])")
  case True
  moreover from assms have s: "set xs = set ys" by (rule mset_eq_setD)
  ultimately have "\<forall>i\<in>set ys. \<not> isl (rendered rt [i])" by simp
  from rendered_all [OF True] rendered_all [OF this] assms
  have "\<exists>a b. rendered rt xs = Inr a \<and> rendered rt ys = Inr b \<and> mset a = mset b"
    by (simp add: mset_concat_map)
  then obtain a b where ab: "rendered rt xs = Inr a" "rendered rt ys = Inr b"
    "mset a = mset b" by blast
  have "sort a = sort b"
    by (rule properties_for_sort) (simp_all add: ab(3))
  with ab show ?thesis by (simp add: manifest_lines_def)
next
  case False
  moreover from assms have s: "set xs = set ys" by (rule mset_eq_setD)
  ultimately have "\<not> (\<forall>i\<in>set ys. \<not> isl (rendered rt [i]))" by simp
  from rendered_some [OF False] rendered_some [OF this] show ?thesis
    by (auto simp: manifest_lines_def and_then_def split: sum.splits)
qed

lemma get_collection_item_ids_result:
  "fst (get_collection_item_ids rm cid w) =
     (case rm (length (sent w)) (collection_request cid) of
        NetworkFailure \<Rightarrow> Inl ConnectionError
      | TimedOut \<Rightarrow> Inl Timeout
      | Answer r \<Rightarrow>
          and_then (raise_for_status r) (\<lambda>_. and_then (response_json r) item_ids))"
  by (auto simp: get_collection_item_ids_def requests_post_def split: outcome.splits)

lemma steam_run:
  "generate_maplist rt0 (steam_remote [child ''1'', child ''6''] two_records) cid0 (ascii ''out'')
     empty_world =
   (Inr (ascii ''out/maplist.txt''),
    \<lparr>sent = [collection_request cid0, details_request [JStr (ascii ''1''), JStr (ascii ''6'')]],
     slept = 1,
     fs = example_fs {ascii ''out''} [ascii ''out/maplist.txt'' \<mapsto> ascii ''Aztec:6'' @ [10] @ ascii ''Dust2:1'']\<rparr>)"
  by (simp add: run_defs steam_remote_def two_records_def collection_request_def
      details_request_def STEAM_COLLECTION_API_def STEAM_DETAILS_API_def ascii_def)

lemma steam_rerun:
  "generate_maplist rt0 (steam_remote [child ''1'', child ''6''] (rev two_records)) cid0
     (ascii ''out'') old_world =
   (Inr (ascii ''out/maplist.txt''),
    \<lparr>sent = [collection_request cid0, details_request [JStr (ascii ''1''), JStr (ascii ''6'')]],
     slept = 1,
     fs = example_fs {ascii ''out''} [ascii ''out/maplist.txt'' \<mapsto> ascii ''Aztec:6'' @ [10] @ ascii ''Dust2:1'',
                    ascii ''out/notes.txt'' \<mapsto> ascii ''keep'']\<rparr>)"
  by (simp add: run_defs steam_remote_def two_records_def old_world_def collection_request_def
      details_request_def STEAM_COLLECTION_API_def STEAM_DETAILS_API_def ascii_def fun_upd_twist)

lemma steam_remote_same_records:
  "\<forall>k k' q. same_records (steam_remote cs recs k q) (steam_remote cs (rev recs) k' q)"
  by (simp add: steam_remote_def same_records_def details_body_def ascii_def)

text \<open>
  C8. Take two remotes whose collection endpoint answers alike and whose answers to one
  and the same request carry the same records, in whatever order within a reply, at
  whatever time. Two complete runs with the same collection identifier and output
  directory, from whatever state of the world each starts (the second run may find the
  file of the first), return the same path and leave the same bytes in the manifest file.
\<close>

theorem manifest_independent_of_record_order:
  assumes fixed: "\<forall>k k' q. same_records (rm1 k q) (rm2 k' q)"
    and coll: "\<forall>k k'. rm1 k (collection_request cid) = rm2 k' (collection_request cid)"
    and run1: "generate_maplist rt rm1 cid out wa = (Inr pa, wa')"
    and run2: "generate_maplist rt rm2 cid out wb = (Inr pb, wb')"
  shows "pa = pb \<and> files (fs wa') pa = files (fs wb') pb \<and> files (fs wa') pa \<noteq> None"
proof -
  from run1 obtain ids1 w1 items1 w2 lines1 f1 where
    a: "get_collection_item_ids rm1 cid wa = (Inr ids1, w1)"
      "get_published_file_details rm1 ids1 w1 = (Inr items1, w2)"
      "manifest_lines rt items1 = Inr lines1"
      "write_manifest rt out lines1 (fs w2) = (Inr pa, f1)" "wa' = w2\<lparr>fs := f1\<rparr>"
    by (cases rule: generate_maplist_cases) simp_all
  from run2 obtain ids2 v1 items2 v2 lines2 f2 where
    b: "get_collection_item_ids rm2 cid wb = (Inr ids2, v1)"
      "get_published_file_details rm2 ids2 v1 = (Inr items2, v2)"
      "manifest_lines rt items2 = Inr lines2"
      "write_manifest rt out lines2 (fs v2) = (Inr pb, f2)" "wb' = v2\<lparr>fs := f2\<rparr>"
    by (cases rule: generate_maplist_cases) simp_all
  from coll have "rm1 (length (sent wa)) (collection_request cid) =
      rm2 (length (sent wb)) (collection_request cid)"
    by blast
  then have "fst (get_collection_item_ids rm1 cid wa) = fst (get_collection_item_ids rm2 cid wb)"
    by (simp only: get_collection_item_ids_result)
  with a(1) b(1) have ids: "ids2 = ids1" by simp
  from get_published_file_details_same_records [OF fixed, of ids1 w1 v1] a(2) b(2) ids
  have "mset items1 = mset items2"
    by (simp add: same_up_to_order_def)
  from manifest_lines_same_records [OF this, of rt] a(3) b(3) have "lines2 = lines1"
    by simp
  with write_manifest_success [OF a(4)] write_manifest_success [OF b(4)] a(5) b(5)
  show ?thesis by auto
qed

theorem manifest_independent_of_record_order_witness:
  "rev two_records \<noteq> two_records \<and>
   fst (generate_maplist rt0 (steam_remote [child ''1'', child ''6''] two_records) cid0
     (ascii ''out'') empty_world) = Inr (ascii ''out/maplist.txt'') \<and>
   fst (generate_maplist rt0 (steam_remote [child ''1'', child ''6''] (rev two_records)) cid0
     (ascii ''out'') old_world) = Inr (ascii ''out/maplist.txt'') \<and>
   files (fs (snd (generate_maplist rt0 (steam_remote [child ''1'', child ''6''] two_records)
     cid0 (ascii ''out'') empty_world))) (ascii ''out/maplist.txt'') =
   files (fs (snd (generate_maplist rt0 (steam_remote [child ''1'', child ''6'']
     (rev two_records)) cid0 (ascii ''out'') old_world))) (ascii ''out/maplist.txt'')"
proof -
  have c: "\<forall>k k'. steam_remote [child ''1'', child ''6''] two_records k (collection_request cid0) =
      steam_remote [child ''1'', child ''6''] (rev two_records) k' (collection_request cid0)"
    by (simp add: steam_remote_def collection_request_def)
  have n: "rev two_records \<noteq> two_records"
    by (simp add: two_records_def record_of_def ascii_def)
  from manifest_independent_of_record_order [OF steam_remote_same_records c steam_run steam_rerun] n
  show ?thesis unfolding steam_run steam_rerun by simp
qed

subsection \<open>The manifest file and the files beside it\<close>
















end
